theory Spec2Isabelle
  imports Complex_Main
begin

section \<open>Errors\<close>

text \<open>
  Every fatal exit of the two source files is a value of this type:
  the glog checks (\<^verbatim>\<open>CHECK\<close>, \<^verbatim>\<open>CHECK_EQ\<close>, \<^verbatim>\<open>LOG(FATAL)\<close>), the C and Eigen assertions, and a
  loop that never exits.
\<close>

datatype error =
    MulNonConstants
  | NoLinearCoefficients
  | DimMismatch
  | PNormNotOne
  | AssertFailed
  | Hangs

section \<open>Expressions\<close>

text \<open>
  Modelled from the spec: the expression type of \<^verbatim>\<open>Expression.hpp\<close>, which is not part of the
  two source files (spec section 3). A node has a type tag, its ordered children and an
  attribute record: a constant carries a dense matrix, a variable its identifier and shape,
  an index node its slices and a norm its parameter \<open>p\<close>. The tag \<^verbatim>\<open>CONST\<close> is written \<open>CONST'\<close>.
  Reading a child that is not there, or an attribute record of another kind, is an
  assertion failure.
\<close>

datatype etype =
    CONST' | VAR | ADD | NEG | MUL | SUM_ENTRIES | HSTACK | VSTACK | RESHAPE | INDEX
  | DIAG_MAT | DIAG_VEC | TRANSPOSE | ABS | P_NORM | QUAD_OVER_LIN | EQ | LEQ | SOC

record slice =
  start :: int
  stop :: int
  step :: int

record dense =
  d_rows :: nat
  d_cols :: nat
  d_coeff :: "nat \<Rightarrow> nat \<Rightarrow> real"

datatype attributes =
    NoAttributes
  | ConstAttributes dense
  | VarAttributes int "nat \<times> nat"
  | IndexAttributes "slice list"
  | PNormAttributes real

datatype expression = Expression etype "expression list" attributes

fun type :: "expression \<Rightarrow> etype" where
  "type (Expression t as a) = t"

fun args :: "expression \<Rightarrow> expression list" where
  "args (Expression t as a) = as"

fun attr_ptr :: "expression \<Rightarrow> attributes" where
  "attr_ptr (Expression t as a) = a"

definition arg :: "expression \<Rightarrow> nat \<Rightarrow> error + expression" where
  "arg e i = (if i < length (args e) then Inr (args e ! i) else Inl AssertFailed)"

type_synonym shape_oracle = "expression \<Rightarrow> nat \<times> nat"

definition dim :: "shape_oracle \<Rightarrow> expression \<Rightarrow> nat" where
  "dim sz e = fst (sz e) * snd (sz e)"


section \<open>Sparse matrices\<close>

text \<open>
  A sparse matrix is a row count, a column count and a list of triplets
  \<open>(row, col, value)\<close>. Duplicate triplets are summed on assembly, so the entry of the
  matrix at a position is the sum of the values stored there (\<open>coeff\<close>). Coefficient
  values are doubles in the source and are idealised as real numbers here; machine
  \<^verbatim>\<open>int\<close> dimensions are natural numbers, their overflow is left out.
\<close>

type_synonym triplet = "nat \<times> nat \<times> real"

record smatrix =
  nrows :: nat
  ncols :: nat
  triplets :: "triplet list"

definition coeff :: "smatrix \<Rightarrow> nat \<Rightarrow> nat \<Rightarrow> real" where
  "coeff A i j = sum_list (map (\<lambda>(r, c, v). if r = i \<and> c = j then v else 0) (triplets A))"

definition in_range :: "nat \<Rightarrow> nat \<Rightarrow> triplet \<Rightarrow> bool" where
  "in_range r c t = (case t of (i, j, v) \<Rightarrow> i < r \<and> j < c)"

definition wf_matrix :: "smatrix \<Rightarrow> bool" where
  "wf_matrix A = list_all (in_range (nrows A) (ncols A)) (triplets A)"

text \<open>
  Modelled from the spec: the sparse kernel of \<^verbatim>\<open>MatrixUtil\<close> and Eigen, which is not part of
  the two source files. \<open>setFromTriplets\<close> asserts that every triplet lies inside the
  matrix; \<open>identity n\<close>, \<open>ones_matrix r c\<close>, \<open>scalar_matrix v n\<close> (that is \<open>v \<cdot> I\<^sub>n\<close>) and
  \<open>sparse_matrix\<close> are the constructors of spec section 6; \<open>mat_mul\<close> is the sparse
  product and \<open>mat_add\<close> the in-place sum \<^verbatim>\<open>+=\<close>, which asserts equal dimensions.
\<close>

definition setFromTriplets :: "nat \<Rightarrow> nat \<Rightarrow> triplet list \<Rightarrow> error + smatrix" where
  "setFromTriplets r c ts =
     (if list_all (in_range r c) ts then Inr \<lparr>nrows = r, ncols = c, triplets = ts\<rparr>
      else Inl AssertFailed)"

definition sparse_matrix :: "nat \<Rightarrow> nat \<Rightarrow> triplet list \<Rightarrow> error + smatrix" where
  "sparse_matrix r c ts = setFromTriplets r c ts"

definition identity :: "nat \<Rightarrow> smatrix" where
  "identity n = \<lparr>nrows = n, ncols = n, triplets = map (\<lambda>i. (i, i, 1)) [0..<n]\<rparr>"

definition scalar_matrix :: "real \<Rightarrow> nat \<Rightarrow> smatrix" where
  "scalar_matrix v n = \<lparr>nrows = n, ncols = n, triplets = map (\<lambda>i. (i, i, v)) [0..<n]\<rparr>"

definition ones_matrix :: "nat \<Rightarrow> nat \<Rightarrow> smatrix" where
  "ones_matrix r c =
     \<lparr>nrows = r, ncols = c,
      triplets = concat (map (\<lambda>j. map (\<lambda>i. (i, j, 1)) [0..<r]) [0..<c])\<rparr>"

definition mat_mul :: "smatrix \<Rightarrow> smatrix \<Rightarrow> smatrix" where
  "mat_mul A B =
     \<lparr>nrows = nrows A, ncols = ncols B,
      triplets = concat (map (\<lambda>(i, k, a).
                   concat (map (\<lambda>(k', j, b). if k = k' then [(i, j, a * b)] else [])
                     (triplets B))) (triplets A))\<rparr>"

definition mat_add :: "smatrix \<Rightarrow> smatrix \<Rightarrow> error + smatrix" where
  "mat_add A B =
     (if nrows A = nrows B \<and> ncols A = ncols B
      then Inr \<lparr>nrows = nrows A, ncols = ncols A, triplets = triplets A @ triplets B\<rparr>
      else Inl AssertFailed)"

text \<open>
  Modelled from the spec: \<^verbatim>\<open>to_vector(dense_data).sparseView()\<close>, the column-major
  flattening of a dense matrix as a sparse matrix with one column (entry \<open>(i, j)\<close> of an
  \<open>(r, c)\<close> matrix goes to position \<open>j \<cdot> r + i\<close>); the sparse view stores the nonzeros only.
\<close>

definition to_vector :: "dense \<Rightarrow> real list" where
  "to_vector d =
     map (\<lambda>k. d_coeff d (k mod d_rows d) (k div d_rows d)) [0..<d_rows d * d_cols d]"

definition sparseView :: "real list \<Rightarrow> smatrix" where
  "sparseView xs =
     \<lparr>nrows = length xs, ncols = 1,
      triplets = concat (map (\<lambda>k. if xs ! k = 0 then [] else [(k, 0, xs ! k)])
                   [0..<length xs])\<rparr>"

section \<open>Per-atom coefficient constructors\<close>

text \<open>
  The shape oracle \<^verbatim>\<open>size(expr)\<close> of \<^verbatim>\<open>ExpressionShape\<close> is external to the two source files
  (spec section 1); every function that calls it takes it as the parameter \<open>sz\<close>, and
  \<^verbatim>\<open>dim(expr)\<close> is the product of its two components.
\<close>

definition get_add_coefficients :: "shape_oracle \<Rightarrow> expression \<Rightarrow> error + smatrix list" where
  "get_add_coefficients sz expr =
     Inr (map (\<lambda>a. if dim sz a = 1 then ones_matrix (dim sz expr) 1
                    else identity (dim sz expr)) (args expr))"

definition get_left_mul_coefficients ::
    "shape_oracle \<Rightarrow> expression \<Rightarrow> smatrix \<Rightarrow> error + smatrix list" where
  "get_left_mul_coefficients sz expr block =
     (let block_rows = nrows block;
          block_cols = ncols block;
          num_blocks = snd (sz expr);
          tripletList = concat (map (\<lambda>curr_block.
              let start_i = curr_block * block_rows;
                  start_j = curr_block * block_cols
              in map (\<lambda>(r, c, v). (start_i + r, start_j + c, v)) (triplets block))
            [0..<num_blocks])
      in case setFromTriplets (num_blocks * block_rows) (num_blocks * block_cols) tripletList of
           Inl err \<Rightarrow> Inl err
         | Inr coeffs \<Rightarrow> Inr [coeffs])"

definition get_right_mul_coefficients ::
    "shape_oracle \<Rightarrow> expression \<Rightarrow> smatrix \<Rightarrow> error + smatrix list" where
  "get_right_mul_coefficients sz expr constant =
     (let rows = nrows constant;
          cols = ncols constant;
          n = fst (sz expr);
          tripletList = concat (map (\<lambda>(r, c, val).
              let row_start = c * n;
                  col_start = r * n
              in map (\<lambda>i. (row_start + i, col_start + i, val)) [0..<n])
            (triplets constant))
      in case setFromTriplets (cols * n) (rows * n) tripletList of
           Inl err \<Rightarrow> Inl err
         | Inr coeffs \<Rightarrow> Inr [coeffs])"

definition get_neg_coefficients :: "shape_oracle \<Rightarrow> expression \<Rightarrow> error + smatrix list" where
  "get_neg_coefficients sz expr = Inr [scalar_matrix (- 1) (dim sz expr)]"

definition get_sum_entries_coefficients ::
    "shape_oracle \<Rightarrow> expression \<Rightarrow> error + smatrix list" where
  "get_sum_entries_coefficients sz expr =
     (case arg expr 0 of
        Inl err \<Rightarrow> Inl err
      | Inr a \<Rightarrow> Inr [ones_matrix 1 (dim sz a)])"

text \<open>
  The loop of \<^verbatim>\<open>get_stack_coefficients\<close> over the arguments, with the running \<open>offset\<close>.
\<close>

fun stack_loop ::
    "shape_oracle \<Rightarrow> expression \<Rightarrow> bool \<Rightarrow> expression list \<Rightarrow> nat \<Rightarrow> error + smatrix list" where
  "stack_loop sz expr vertical [] offset = Inr []"
| "stack_loop sz expr vertical (a # rest) offset =
     (let expr_size = sz expr;
          arg_size = sz a;
          column_offset = (if vertical then fst expr_size else fst arg_size);
          offset_increment = (if vertical then fst arg_size else dim sz a);
          arg_coeffs = concat (map (\<lambda>i. map (\<lambda>j.
              (i + j * column_offset + offset, i + j * fst arg_size, 1))
              [0..<snd arg_size]) [0..<fst arg_size])
      in case sparse_matrix (dim sz expr) (dim sz a) arg_coeffs of
           Inl err \<Rightarrow> Inl err
         | Inr m \<Rightarrow>
             (case stack_loop sz expr vertical rest (offset + offset_increment) of
                Inl err \<Rightarrow> Inl err
              | Inr ms \<Rightarrow> Inr (m # ms)))"

definition get_stack_coefficients ::
    "shape_oracle \<Rightarrow> expression \<Rightarrow> bool \<Rightarrow> error + smatrix list" where
  "get_stack_coefficients sz expr vertical = stack_loop sz expr vertical (args expr) 0"

definition get_hstack_coefficients :: "shape_oracle \<Rightarrow> expression \<Rightarrow> error + smatrix list" where
  "get_hstack_coefficients sz expr = get_stack_coefficients sz expr False"

definition get_vstack_coefficients :: "shape_oracle \<Rightarrow> expression \<Rightarrow> error + smatrix list" where
  "get_vstack_coefficients sz expr = get_stack_coefficients sz expr True"

definition get_reshape_coefficients :: "shape_oracle \<Rightarrow> expression \<Rightarrow> error + smatrix list" where
  "get_reshape_coefficients sz expr = Inr [identity (dim sz expr)]"

definition get_diag_mat_coefficients :: "shape_oracle \<Rightarrow> expression \<Rightarrow> error + smatrix list" where
  "get_diag_mat_coefficients sz expr =
     (let rows = fst (sz expr);
          tripletList = map (\<lambda>i. (i, i * rows + i, 1)) [0..<rows]
      in case setFromTriplets rows (rows * rows) tripletList of
           Inl err \<Rightarrow> Inl err
         | Inr coeffs \<Rightarrow> Inr [coeffs])"

definition get_diag_vec_coefficients :: "shape_oracle \<Rightarrow> expression \<Rightarrow> error + smatrix list" where
  "get_diag_vec_coefficients sz expr =
     (let rows = fst (sz expr);
          tripletList = map (\<lambda>i. (i * rows + i, i, 1)) [0..<rows]
      in case setFromTriplets (rows * rows) rows tripletList of
           Inl err \<Rightarrow> Inl err
         | Inr coeffs \<Rightarrow> Inr [coeffs])"

definition get_transpose_coefficients :: "shape_oracle \<Rightarrow> expression \<Rightarrow> error + smatrix list" where
  "get_transpose_coefficients sz expr =
     (let rows = fst (sz expr);
          cols = snd (sz expr);
          tripletList = concat (map (\<lambda>i. map (\<lambda>j. (rows * j + i, i * cols + j, 1))
              [0..<cols]) [0..<rows])
      in case setFromTriplets (rows * cols) (rows * cols) tripletList of
           Inl err \<Rightarrow> Inl err
         | Inr coeffs \<Rightarrow> Inr [coeffs])"


text \<open>
  The two nested \<^verbatim>\<open>while (true)\<close> loops of \<^verbatim>\<open>get_index_coefficients\<close>. A loop whose step is
  zero never exits while its index stays in range; not returning is the value \<open>None\<close>.
\<close>

partial_function (option) index_row_loop ::
    "int \<Rightarrow> int \<Rightarrow> int \<Rightarrow> int \<Rightarrow> int \<Rightarrow> nat \<Rightarrow> triplet list \<Rightarrow> (nat \<times> triplet list) option" where
  "index_row_loop rows row_stop row_step col row counter tripletList =
     (if row < 0 \<or> row \<ge> rows then Some (counter, tripletList)
      else if (row_step > 0 \<and> row + row_step \<ge> row_stop) \<or>
              (row_step < 0 \<and> row + row_step < row_stop)
        then Some (counter + 1, tripletList @ [(counter, nat (col * rows + row), 1)])
        else index_row_loop rows row_stop row_step col (row + row_step) (counter + 1)
               (tripletList @ [(counter, nat (col * rows + row), 1)]))"

partial_function (option) index_col_loop ::
    "int \<Rightarrow> int \<Rightarrow> int \<Rightarrow> int \<Rightarrow> int \<Rightarrow> int \<Rightarrow> int \<Rightarrow> int \<Rightarrow> nat \<Rightarrow> triplet list
       \<Rightarrow> triplet list option" where
  "index_col_loop rows cols row_start row_stop row_step col_stop col_step col counter tripletList =
     (if col < 0 \<or> col \<ge> cols then Some tripletList
      else Option.bind (index_row_loop rows row_stop row_step col row_start counter tripletList)
        (\<lambda>res.
           if (col_step > 0 \<and> col + col_step \<ge> col_stop) \<or>
              (col_step < 0 \<and> col + col_step < col_stop)
           then Some (snd res)
           else index_col_loop rows cols row_start row_stop row_step col_stop col_step
                  (col + col_step) (fst res) (snd res)))"

declare index_row_loop.simps [code]

declare index_col_loop.simps [code]

definition get_index_coefficients :: "shape_oracle \<Rightarrow> expression \<Rightarrow> error + smatrix list" where
  "get_index_coefficients sz expr =
     (case arg expr 0 of
        Inl err \<Rightarrow> Inl err
      | Inr a \<Rightarrow>
          (let rows = fst (sz a);
               cols = snd (sz a)
           in if dim sz expr = 0 \<or> rows * cols = 0
              then Inr [\<lparr>nrows = dim sz expr, ncols = rows * cols, triplets = []\<rparr>]
              else (case attr_ptr expr of
                  IndexAttributes (rs # cs # others) \<Rightarrow>
                    (let row_start = (if start rs < 0 then int rows + start rs else start rs);
                         row_stop = (if stop rs < 0 then int rows + stop rs else stop rs);
                         row_step = step rs;
                         col_start = (if start cs < 0 then int cols + start cs else start cs);
                         col_stop = (if stop cs < 0 then int cols + stop cs else stop cs);
                         col_step = step cs
                     in case index_col_loop (int rows) (int cols) row_start row_stop row_step
                               col_stop col_step col_start 0 [] of
                          None \<Rightarrow> Inl Hangs
                        | Some tripletList \<Rightarrow>
                            (case setFromTriplets (dim sz expr) (rows * cols) tripletList of
                               Inl err \<Rightarrow> Inl err
                             | Inr coeffs \<Rightarrow> Inr [coeffs]))
                | _ \<Rightarrow> Inl AssertFailed)))"

text \<open>The registry \<^verbatim>\<open>kCoefficientFunctions\<close>, keyed by the type tag.\<close>

definition kCoefficientFunctions ::
    "etype \<Rightarrow> (shape_oracle \<Rightarrow> expression \<Rightarrow> error + smatrix list) option" where
  "kCoefficientFunctions t =
     (if t = ADD then Some get_add_coefficients
      else if t = DIAG_MAT then Some get_diag_mat_coefficients
      else if t = DIAG_VEC then Some get_diag_vec_coefficients
      else if t = HSTACK then Some get_hstack_coefficients
      else if t = INDEX then Some get_index_coefficients
      else if t = NEG then Some get_neg_coefficients
      else if t = RESHAPE then Some get_reshape_coefficients
      else if t = SUM_ENTRIES then Some get_sum_entries_coefficients
      else if t = TRANSPOSE then Some get_transpose_coefficients
      else if t = VSTACK then Some get_vstack_coefficients
      else None)"

section \<open>Coefficient maps\<close>

text \<open>
  \<^verbatim>\<open>CoeffMap\<close> is a \<^verbatim>\<open>std::map<int, SparseMatrix>\<close>: an association list with ascending,
  distinct keys. \<open>cm_insert\<close> is \<^verbatim>\<open>std::map::insert\<close> of a key that is absent, and
  \<open>cm_update\<close> overwrites the value of a key that is present.
\<close>

type_synonym coeff_map = "(int \<times> smatrix) list"

text \<open>
  Modelled from the spec: the sentinel \<^verbatim>\<open>kConstCoefficientId\<close> of the header, a reserved key
  distinct from every variable identifier.
\<close>

definition kConstCoefficientId :: int where
  "kConstCoefficientId = - 1"

fun cm_insert :: "int \<Rightarrow> smatrix \<Rightarrow> coeff_map \<Rightarrow> coeff_map" where
  "cm_insert k v [] = [(k, v)]"
| "cm_insert k v ((k', v') # rest) =
     (if k < k' then (k, v) # (k', v') # rest
      else if k = k' then (k', v') # rest
      else (k', v') # cm_insert k v rest)"

fun cm_update :: "int \<Rightarrow> smatrix \<Rightarrow> coeff_map \<Rightarrow> coeff_map" where
  "cm_update k v [] = []"
| "cm_update k v ((k', v') # rest) =
     (if k = k' then (k', v) # rest else (k', v') # cm_update k v rest)"

text \<open>
  Reading \<^verbatim>\<open>coeffs[key]\<close>: \<^verbatim>\<open>operator[]\<close> of \<^verbatim>\<open>std::map\<close> yields a default-constructed, empty
  matrix for a key that is absent.
\<close>

definition cm_at :: "coeff_map \<Rightarrow> int \<Rightarrow> smatrix" where
  "cm_at coeffs k =
     (case map_of coeffs k of
        None \<Rightarrow> \<lparr>nrows = 0, ncols = 0, triplets = []\<rparr>
      | Some v \<Rightarrow> v)"

definition is_constant :: "coeff_map \<Rightarrow> bool" where
  "is_constant coeffs = (map_of coeffs kConstCoefficientId \<noteq> None \<and> length coeffs = 1)"

text \<open>\<^verbatim>\<open>result += lhs*rhs\<close>, entry by entry in key order.\<close>

fun multiply_by_constant :: "smatrix \<Rightarrow> coeff_map \<Rightarrow> coeff_map \<Rightarrow> error + coeff_map" where
  "multiply_by_constant lhs [] result = Inr result"
| "multiply_by_constant lhs ((k, m) # rest) result =
     (if ncols lhs \<noteq> nrows m then Inl DimMismatch
      else (let val = mat_mul lhs m
            in case map_of result k of
                 None \<Rightarrow> multiply_by_constant lhs rest (cm_insert k val result)
               | Some old \<Rightarrow>
                   (case mat_add old val of
                      Inl err \<Rightarrow> Inl err
                    | Inr s \<Rightarrow> multiply_by_constant lhs rest (cm_update k s result))))"

section \<open>The coefficient extractor\<close>

text \<open>
  The loop of the generic branch of \<^verbatim>\<open>get_coefficients\<close>: argument \<open>i\<close> contributes
  \<open>f_coeffs[i]\<close> times its own coefficient map; an argument without a matrix is an
  out-of-range read. The recursive results are passed in order, and the first failure ends
  the loop. In \<open>get_coefficients\<close> itself the branches stand in the order of the source:
  constant, variable, product (whose \<^verbatim>\<open>assert\<close> on two children is a failure of its own),
  and the registry.
\<close>

fun accumulate ::
    "smatrix list \<Rightarrow> (error + coeff_map) list \<Rightarrow> coeff_map \<Rightarrow> error + coeff_map" where
  "accumulate f_coeffs [] coeffs = Inr coeffs"
| "accumulate [] (r # rs) coeffs = Inl AssertFailed"
| "accumulate (f # fs) (r # rs) coeffs =
     (case r of
        Inl err \<Rightarrow> Inl err
      | Inr arg_coeffs \<Rightarrow>
          (case multiply_by_constant f arg_coeffs coeffs of
             Inl err \<Rightarrow> Inl err
           | Inr coeffs' \<Rightarrow> accumulate fs rs coeffs'))"

fun get_coefficients :: "shape_oracle \<Rightarrow> expression \<Rightarrow> error + coeff_map" where
  "get_coefficients sz (Expression t as a) =
     (if t = CONST' then
        (case a of
           ConstAttributes d \<Rightarrow> Inr [(kConstCoefficientId, sparseView (to_vector d))]
         | _ \<Rightarrow> Inl AssertFailed)
      else if t = VAR then
        (case a of
           VarAttributes v s \<Rightarrow> Inr [(v, identity (dim sz (Expression t as a)))]
         | _ \<Rightarrow> Inl AssertFailed)
      else if t = MUL then
        (case as of
           [l, r] \<Rightarrow>
             (case get_coefficients sz l of
                Inl err \<Rightarrow> Inl err
              | Inr lhs_coeffs \<Rightarrow>
                  (case get_coefficients sz r of
                     Inl err \<Rightarrow> Inl err
                   | Inr rhs_coeffs \<Rightarrow>
                       if is_constant lhs_coeffs then
                         (case get_left_mul_coefficients sz (Expression t as a)
                                 (cm_at lhs_coeffs kConstCoefficientId) of
                            Inl err \<Rightarrow> Inl err
                          | Inr [] \<Rightarrow> Inl AssertFailed
                          | Inr (f # fs) \<Rightarrow> multiply_by_constant f rhs_coeffs [])
                       else if is_constant rhs_coeffs then
                         (case get_right_mul_coefficients sz (Expression t as a)
                                 (cm_at rhs_coeffs kConstCoefficientId) of
                            Inl err \<Rightarrow> Inl err
                          | Inr [] \<Rightarrow> Inl AssertFailed
                          | Inr (f # fs) \<Rightarrow> multiply_by_constant f lhs_coeffs [])
                       else Inl MulNonConstants))
         | _ \<Rightarrow> Inl AssertFailed)
      else
        (case kCoefficientFunctions t of
           None \<Rightarrow> Inl NoLinearCoefficients
         | Some f \<Rightarrow>
             (case f sz (Expression t as a) of
                Inl err \<Rightarrow> Inl err
              | Inr f_coeffs \<Rightarrow> accumulate f_coeffs (map (get_coefficients sz) as) [])))"


section \<open>The cone transformer\<close>

text \<open>
  The transformer appends to the caller's constraint vector and mints variables. Both
  effects are explicit: the state holds the accumulator and the next unused variable
  identifier.
\<close>

record tstate =
  acc :: "expression list"
  next_id :: int

definition push_back :: "expression \<Rightarrow> tstate \<Rightarrow> tstate" where
  "push_back c st = st\<lparr>acc := acc st @ [c]\<rparr>"

text \<open>
  Modelled from the spec: the node constructors of \<^verbatim>\<open>ExpressionUtil\<close> (spec section 6),
  which is not part of the two source files. Each builds one node of the named type over
  its operands; \<open>constant v\<close> is the scalar constant \<open>v\<close>. \<open>epi_var\<close> mints a variable with
  the shape of its parent and \<open>scalar_epi_var\<close> a scalar one; identifiers are unique, here
  consecutive. The label passed for naming is left out.
\<close>

definition leq :: "expression \<Rightarrow> expression \<Rightarrow> expression" where
  "leq a b = Expression LEQ [a, b] NoAttributes"

definition neg :: "expression \<Rightarrow> expression" where
  "neg x = Expression NEG [x] NoAttributes"

definition add :: "expression \<Rightarrow> expression \<Rightarrow> expression" where
  "add a b = Expression ADD [a, b] NoAttributes"

definition mul :: "expression \<Rightarrow> expression \<Rightarrow> expression" where
  "mul a b = Expression MUL [a, b] NoAttributes"

definition vstack :: "expression list \<Rightarrow> expression" where
  "vstack xs = Expression VSTACK xs NoAttributes"

definition sum_entries :: "expression \<Rightarrow> expression" where
  "sum_entries x = Expression SUM_ENTRIES [x] NoAttributes"

definition soc :: "expression \<Rightarrow> expression \<Rightarrow> expression" where
  "soc v w = Expression SOC [v, w] NoAttributes"

definition "constant" :: "real \<Rightarrow> expression" where
  "constant v =
     Expression CONST' [] (ConstAttributes \<lparr>d_rows = 1, d_cols = 1, d_coeff = (\<lambda>i j. v)\<rparr>)"

definition var :: "int \<Rightarrow> nat \<times> nat \<Rightarrow> expression" where
  "var v s = Expression VAR [] (VarAttributes v s)"

definition epi_var :: "shape_oracle \<Rightarrow> expression \<Rightarrow> tstate \<Rightarrow> expression \<times> tstate" where
  "epi_var sz parent st = (var (next_id st) (sz parent), st\<lparr>next_id := next_id st + 1\<rparr>)"

definition scalar_epi_var :: "expression \<Rightarrow> tstate \<Rightarrow> expression \<times> tstate" where
  "scalar_epi_var parent st = (var (next_id st) (1, 1), st\<lparr>next_id := next_id st + 1\<rparr>)"

definition transform_abs ::
    "shape_oracle \<Rightarrow> expression \<Rightarrow> tstate \<Rightarrow> error + expression \<times> tstate" where
  "transform_abs sz expr st =
     (case arg expr 0 of
        Inl err \<Rightarrow> Inl err
      | Inr x \<Rightarrow>
          (case epi_var sz expr st of
             (t, st1) \<Rightarrow> Inr (t, push_back (leq (neg x) t) (push_back (leq x t) st1))))"

definition transform_p_norm ::
    "shape_oracle \<Rightarrow> expression \<Rightarrow> tstate \<Rightarrow> error + expression \<times> tstate" where
  "transform_p_norm sz expr st =
     (case attr_ptr expr of
        PNormAttributes p \<Rightarrow>
          if p \<noteq> 1 then Inl PNormNotOne
          else (case transform_abs sz expr st of
                  Inl err \<Rightarrow> Inl err
                | Inr (t, st') \<Rightarrow> Inr (sum_entries t, st'))
      | _ \<Rightarrow> Inl AssertFailed)"

definition transform_quad_over_lin ::
    "shape_oracle \<Rightarrow> expression \<Rightarrow> tstate \<Rightarrow> error + expression \<times> tstate" where
  "transform_quad_over_lin sz expr st =
     (case arg expr 0 of
        Inl err \<Rightarrow> Inl err
      | Inr x \<Rightarrow>
          (case arg expr 1 of
             Inl err \<Rightarrow> Inl err
           | Inr y \<Rightarrow>
               (case scalar_epi_var expr st of
                  (t, st1) \<Rightarrow>
                    Inr (t, push_back (leq (constant 0) y)
                              (push_back (soc (vstack [add y (neg t), mul (constant 2) x])
                                              (add y t)) st1)))))"

text \<open>The registry \<^verbatim>\<open>kTransforms\<close>.\<close>

definition kTransforms ::
    "etype \<Rightarrow> (shape_oracle \<Rightarrow> expression \<Rightarrow> tstate \<Rightarrow> error + expression \<times> tstate) option" where
  "kTransforms t =
     (if t = ABS then Some transform_abs
      else if t = P_NORM then Some transform_p_norm
      else if t = QUAD_OVER_LIN then Some transform_quad_over_lin
      else None)"

text \<open>
  \<open>transform_expression\<close> first transforms the children from left to right
  (\<open>transform_args\<close> is that loop), rebuilds the node and then applies the registered rewrite.
\<close>

fun transform_expression ::
      "shape_oracle \<Rightarrow> expression \<Rightarrow> tstate \<Rightarrow> error + expression \<times> tstate"
  and transform_args ::
      "shape_oracle \<Rightarrow> expression list \<Rightarrow> tstate \<Rightarrow> error + expression list \<times> tstate" where
  "transform_expression sz (Expression t as a) st =
     (case transform_args sz as st of
        Inl err \<Rightarrow> Inl err
      | Inr (linear_args, st1) \<Rightarrow>
          (case kTransforms t of
             None \<Rightarrow> Inr (Expression t linear_args a, st1)
           | Some f \<Rightarrow> f sz (Expression t linear_args a) st1))"
| "transform_args sz [] st = Inr ([], st)"
| "transform_args sz (x # xs) st =
     (case transform_expression sz x st of
        Inl err \<Rightarrow> Inl err
      | Inr (x', st1) \<Rightarrow>
          (case transform_args sz xs st1 of
             Inl err \<Rightarrow> Inl err
           | Inr (xs', st2) \<Rightarrow> Inr (x' # xs', st2)))"

text \<open>
  Modelled from the spec: the \<^verbatim>\<open>Problem\<close> record, an objective and a list of constraints with
  the sense of the optimisation.
\<close>

datatype sense = MAXIMIZE | MINIMIZE

record problem =
  sense :: sense
  objective :: expression
  constraints :: "expression list"

text \<open>
  The loop of \<^verbatim>\<open>LinearConeTransform::transform\<close> over the constraints of the problem: each
  is transformed against the shared accumulator and then pushed onto it.
\<close>

fun transform_constraints ::
    "shape_oracle \<Rightarrow> expression list \<Rightarrow> tstate \<Rightarrow> error + tstate" where
  "transform_constraints sz [] st = Inr st"
| "transform_constraints sz (constr # rest) st =
     (case transform_expression sz constr st of
        Inl err \<Rightarrow> Inl err
      | Inr (c', st1) \<Rightarrow> transform_constraints sz rest (push_back c' st1))"

text \<open>
  \<^verbatim>\<open>LinearConeTransform::transform\<close>; the first unused identifier is an argument, and the
  one left after the run is returned beside the problem.
\<close>

definition transform :: "shape_oracle \<Rightarrow> problem \<Rightarrow> int \<Rightarrow> error + problem \<times> int" where
  "transform sz prob n0 =
     (case transform_expression sz (objective prob) \<lparr>acc = [], next_id = n0\<rparr> of
        Inl err \<Rightarrow> Inl err
      | Inr (linear_objective, st1) \<Rightarrow>
          (case transform_constraints sz (constraints prob) st1 of
             Inl err \<Rightarrow> Inl err
           | Inr st2 \<Rightarrow>
               Inr (\<lparr>sense = sense prob, objective = linear_objective,
                      constraints = acc st2\<rparr>, next_id st2)))"

section \<open>A shape oracle for the examples\<close>

text \<open>
  Modelled from the spec: the shapes that spec sections 3 and 4 state for each node type.
  A variable has the shape it carries and a constant the shape of its data; negation,
  absolute value and sum (with a promoted scalar) keep the shape of the operand; a product
  of \<open>(r, c)\<close> and \<open>(c, n)\<close> has shape \<open>(r, n)\<close>; a transpose swaps the two dimensions; sums
  of entries, norms and quadratic-over-linear are scalars; \<open>DIAG_VEC\<close> of \<open>(n, 1)\<close> is
  \<open>(n, n)\<close> and \<open>DIAG_MAT\<close> of \<open>(n, n)\<close> is \<open>(n, 1)\<close>; stacking adds up the stacked dimension.
  The spec states no shape for \<open>RESHAPE\<close>, \<open>INDEX\<close> and the constraint nodes; they get
  \<open>(0, 0)\<close> here. The theorems below hold for every oracle; this one instantiates them.
\<close>

fun first_nonscalar :: "(nat \<times> nat) list \<Rightarrow> nat \<times> nat" where
  "first_nonscalar [] = (1, 1)"
| "first_nonscalar (s # ss) = (if fst s * snd s = 1 then first_nonscalar ss else s)"

fun size_spec :: "expression \<Rightarrow> nat \<times> nat" where
  "size_spec (Expression t as a) =
     (case t of
        CONST' \<Rightarrow> (case a of ConstAttributes d \<Rightarrow> (d_rows d, d_cols d) | _ \<Rightarrow> (0, 0))
      | VAR \<Rightarrow> (case a of VarAttributes v s \<Rightarrow> s | _ \<Rightarrow> (0, 0))
      | ADD \<Rightarrow> first_nonscalar (map size_spec as)
      | NEG \<Rightarrow> (case as of x # xs \<Rightarrow> size_spec x | [] \<Rightarrow> (0, 0))
      | ABS \<Rightarrow> (case as of x # xs \<Rightarrow> size_spec x | [] \<Rightarrow> (0, 0))
      | MUL \<Rightarrow> (case as of [l, r] \<Rightarrow> (fst (size_spec l), snd (size_spec r)) | _ \<Rightarrow> (0, 0))
      | TRANSPOSE \<Rightarrow>
          (case as of x # xs \<Rightarrow> (snd (size_spec x), fst (size_spec x)) | [] \<Rightarrow> (0, 0))
      | SUM_ENTRIES \<Rightarrow> (1, 1)
      | P_NORM \<Rightarrow> (1, 1)
      | QUAD_OVER_LIN \<Rightarrow> (1, 1)
      | DIAG_VEC \<Rightarrow> (case as of x # xs \<Rightarrow> (fst (size_spec x), fst (size_spec x)) | [] \<Rightarrow> (0, 0))
      | DIAG_MAT \<Rightarrow> (case as of x # xs \<Rightarrow> (fst (size_spec x), 1) | [] \<Rightarrow> (0, 0))
      | HSTACK \<Rightarrow>
          (case as of x # xs \<Rightarrow> (fst (size_spec x), sum_list (map (\<lambda>y. snd (size_spec y)) as))
           | [] \<Rightarrow> (0, 0))
      | VSTACK \<Rightarrow>
          (case as of x # xs \<Rightarrow> (sum_list (map (\<lambda>y. fst (size_spec y)) as), snd (size_spec x))
           | [] \<Rightarrow> (0, 0))
      | _ \<Rightarrow> (0, 0))"


section \<open>Flattening and the action of a coefficient matrix\<close>

text \<open>
  The flattening convention of spec section 3: a matrix of shape \<open>(r, c)\<close> is the vector of
  length \<open>r \<cdot> c\<close> whose position \<open>j \<cdot> r + i\<close> holds entry \<open>(i, j)\<close>. \<open>mat_vec A x\<close> is the
  product of a sparse matrix with a vector: every triplet \<open>(i, j, v)\<close> adds \<open>v \<cdot> x\<^sub>j\<close> to
  component \<open>i\<close>.
\<close>

definition vec :: "nat \<Rightarrow> nat \<Rightarrow> (nat \<Rightarrow> nat \<Rightarrow> real) \<Rightarrow> real list" where
  "vec r c M = map (\<lambda>k. M (k mod r) (k div r)) [0..<r * c]"

definition mat_vec :: "smatrix \<Rightarrow> real list \<Rightarrow> real list" where
  "mat_vec A x =
     map (\<lambda>i. sum_list (map (\<lambda>(r, c, v). if r = i then v * x ! c else 0) (triplets A)))
       [0..<nrows A]"


section \<open>Notions the properties are stated with\<close>

text \<open>
  An expression without a registered nonlinear atom: no node of its tree has type \<open>ABS\<close>,
  \<open>P_NORM\<close> or \<open>QUAD_OVER_LIN\<close>.
\<close>

fun affine_tree :: "expression \<Rightarrow> bool" where
  "affine_tree (Expression t as a) =
     (t \<noteq> ABS \<and> t \<noteq> P_NORM \<and> t \<noteq> QUAD_OVER_LIN \<and> list_all affine_tree as)"

text \<open>
  The order of the output constraints, stated on its own: every original constraint, in
  input order, yields one block, the auxiliary constraints its transformation emits into
  an empty accumulator followed by the transformed constraint itself. Only the identifier
  counter is passed from one block to the next.
\<close>

fun constraint_blocks ::
    "shape_oracle \<Rightarrow> expression list \<Rightarrow> int \<Rightarrow> error + expression list list \<times> int" where
  "constraint_blocks sz [] n = Inr ([], n)"
| "constraint_blocks sz (c # cs) n =
     (case transform_expression sz c \<lparr>acc = [], next_id = n\<rparr> of
        Inl err \<Rightarrow> Inl err
      | Inr (c', st) \<Rightarrow>
          (case constraint_blocks sz cs (next_id st) of
             Inl err \<Rightarrow> Inl err
           | Inr (blocks, n') \<Rightarrow> Inr ((acc st @ [c']) # blocks, n')))"

text \<open>The keys of a \<^verbatim>\<open>std::map\<close> are strictly ascending.\<close>

definition cm_sorted :: "coeff_map \<Rightarrow> bool" where
  "cm_sorted m = sorted_wrt (<) (map fst m)"

text \<open>Every entry of a coefficient map can be multiplied from the left by \<open>F\<close>.\<close>

definition cols_match :: "smatrix \<Rightarrow> coeff_map \<Rightarrow> bool" where
  "cols_match F m = list_all (\<lambda>e. ncols F = nrows (snd e)) m"

text \<open>Inputs of the examples: a dense matrix given by its rows, and an empty one.\<close>

definition dense_of_rows :: "real list list \<Rightarrow> dense" where
  "dense_of_rows rs =
     \<lparr>d_rows = length rs, d_cols = (case rs of [] \<Rightarrow> 0 | r # _ \<Rightarrow> length r),
      d_coeff = (\<lambda>i j. rs ! i ! j)\<rparr>"

definition zero_dense :: "nat \<Rightarrow> nat \<Rightarrow> dense" where
  "zero_dense r c = \<lparr>d_rows = r, d_cols = c, d_coeff = (\<lambda>i j. 0)\<rparr>"

definition const_node :: "dense \<Rightarrow> expression" where
  "const_node d = Expression CONST' [] (ConstAttributes d)"


text \<open>
  Putting constraints in front of the accumulator of a state, and of the state a result
  carries: the transformer commutes with it, which is how "only appends" is stated.
\<close>

definition prepend :: "expression list \<Rightarrow> tstate \<Rightarrow> tstate" where
  "prepend cs st = st\<lparr>acc := cs @ acc st\<rparr>"

definition with_prefix :: "expression list \<Rightarrow> error + 'a \<times> tstate \<Rightarrow> error + 'a \<times> tstate" where
  "with_prefix cs res =
     (case res of Inl err \<Rightarrow> Inl err | Inr (x, st) \<Rightarrow> Inr (x, prepend cs st))"

section \<open>Sums over triplet lists\<close>


lemma sum_list_upt: "sum_list (map f [0..<n]) = sum f {0..<n}"
  by (simp add: interv_sum_list_conv_sum_set_nat)

lemma sum_list_concat_map:
  fixes f :: "'a \<Rightarrow> 'b::monoid_add"
  shows "sum_list (map f (concat xss)) = sum_list (map (\<lambda>xs. sum_list (map f xs)) xss)"
  by (induction xss) simp_all

lemma sum_list_grid:
  fixes f :: "'a \<Rightarrow> 'b::comm_monoid_add"
  shows "sum_list (map f (concat (map (\<lambda>i. map (g i) [0..<m]) [0..<n]))) =
     (\<Sum>i = 0..<n. \<Sum>j = 0..<m. f (g i j))"
  by (simp add: sum_list_concat_map comp_def sum_list_upt)

lemma divmod_unique:
  fixes R :: nat
  assumes "i < R"
  shows "R * j + i = p \<longleftrightarrow> j = p div R \<and> i = p mod R"
  using assms by auto

lemma sum_grid_delta:
  fixes f :: "nat \<Rightarrow> nat \<Rightarrow> real"
  assumes "p < R * C"
  shows "(\<Sum>i = 0..<R. \<Sum>j = 0..<C. if R * j + i = p then f i j else 0) = f (p mod R) (p div R)"
proof -
  have R: "0 < R" using assms by (cases R) auto
  have dv: "p div R < C" using assms by (simp add: less_mult_imp_div_less mult.commute)
  have md: "p mod R < R" using R by simp
  have "(\<Sum>i = 0..<R. \<Sum>j = 0..<C. if R * j + i = p then f i j else 0) =
        (\<Sum>i = 0..<R. \<Sum>j = 0..<C. if j = p div R then (if i = p mod R then f i j else 0) else 0)"
    by (intro sum.cong refl) (auto simp: divmod_unique)
  also have "\<dots> = (\<Sum>i = 0..<R. if i = p mod R then f i (p div R) else 0)"
    using dv by (simp add: sum.delta)
  also have "\<dots> = f (p mod R) (p div R)"
    using md by (simp add: sum.delta)
  finally show ?thesis .
qed

lemma transpose_in_range:
  "list_all (in_range (R * C) (R * C))
     (concat (map (\<lambda>i. map (\<lambda>j. (R * j + i, i * C + j, 1)) [0..<C]) [0..<R]))"
proof -
  have a: "R * j + i < R * C" if "i < R" "j < C" for i j
  proof -
    have "R * j + i < R * j + R" using that by simp
    also have "\<dots> = R * Suc j" by simp
    also have "\<dots> \<le> R * C" using that by (intro mult_le_mono2) simp
    finally show ?thesis .
  qed
  have b: "i * C + j < R * C" if "i < R" "j < C" for i j
  proof -
    have "i * C + j < i * C + C" using that by simp
    also have "\<dots> = Suc i * C" by simp
    also have "\<dots> \<le> R * C" using that by (intro mult_le_mono1) simp
    finally show ?thesis .
  qed
  show ?thesis
    by (auto simp: list_all_iff in_range_def a b)
qed


lemma grid_bound:
  fixes R :: nat
  assumes "i < R" "j < C"
  shows "R * j + i < R * C"
proof -
  have "R * j + i < R * j + R" using assms by simp
  also have "\<dots> = R * Suc j" by simp
  also have "\<dots> \<le> R * C" using assms by (intro mult_le_mono2) simp
  finally show ?thesis .
qed

lemma transpose_coeff:
  "sum_list (map (\<lambda>(a, b, v). if a = p \<and> b = q then v else 0)
      (concat (map (\<lambda>i. map (\<lambda>j. (R * j + i, i * C + j, 1::real)) [0..<C]) [0..<R]))) =
   (if \<exists>i<R. \<exists>j<C. p = R * j + i \<and> q = i * C + j then 1 else 0)"
proof -
  let ?f = "\<lambda>i j. if i * C + j = q then (1::real) else 0"
  have eq: "sum_list (map (\<lambda>(a, b, v). if a = p \<and> b = q then v else 0)
      (concat (map (\<lambda>i. map (\<lambda>j. (R * j + i, i * C + j, 1::real)) [0..<C]) [0..<R]))) =
      (\<Sum>i = 0..<R. \<Sum>j = 0..<C. if R * j + i = p then ?f i j else 0)"
    unfolding sum_list_grid by (intro sum.cong refl) auto
  show ?thesis
  proof (cases "p < R * C")
    case True
    then have R: "0 < R" by (cases R) auto
    have dv: "p div R < C" using True by (simp add: less_mult_imp_div_less mult.commute)
    have md: "p mod R < R" using R by simp
    have "(\<exists>i<R. \<exists>j<C. p = R * j + i \<and> q = i * C + j) \<longleftrightarrow> (p mod R) * C + p div R = q"
    proof
      assume "\<exists>i<R. \<exists>j<C. p = R * j + i \<and> q = i * C + j"
      then obtain i j where ij: "i < R" "j < C" "p = R * j + i" "q = i * C + j" by blast
      have "p div R = j" "p mod R = i" using ij(1,3) by auto
      then show "(p mod R) * C + p div R = q" using ij(4) by simp
    next
      assume "(p mod R) * C + p div R = q"
      then show "\<exists>i<R. \<exists>j<C. p = R * j + i \<and> q = i * C + j"
        using dv md by (intro exI[of _ "p mod R"] conjI exI[of _ "p div R"]) auto
    qed
    then show ?thesis
      unfolding eq sum_grid_delta[OF True] by simp
  next
    case False
    have z: "(\<Sum>i = 0..<R. \<Sum>j = 0..<C. if R * j + i = p then ?f i j else 0) = 0"
    proof (intro sum.neutral ballI)
      fix i j assume "i \<in> {0..<R}" "j \<in> {0..<C}"
      then have "R * j + i < R * C" by (simp add: grid_bound)
      with False show "(if R * j + i = p then ?f i j else 0) = 0" by auto
    qed
    have "\<not> (\<exists>i<R. \<exists>j<C. p = R * j + i \<and> q = i * C + j)"
      using False grid_bound by blast
    then show ?thesis unfolding eq z by simp
  qed
qed

lemma transpose_apply:
  assumes "p < R * C"
  shows "sum_list (map (\<lambda>(a, b, v). if a = p then v * x ! b else 0)
      (concat (map (\<lambda>i. map (\<lambda>j. (R * j + i, i * C + j, 1::real)) [0..<C]) [0..<R]))) =
       x ! ((p mod R) * C + p div R)"
proof -
  have "sum_list (map (\<lambda>(a, b, v). if a = p then v * x ! b else 0)
      (concat (map (\<lambda>i. map (\<lambda>j. (R * j + i, i * C + j, 1::real)) [0..<C]) [0..<R]))) =
      (\<Sum>i = 0..<R. \<Sum>j = 0..<C. if R * j + i = p then x ! (i * C + j) else 0)"
    unfolding sum_list_grid by (intro sum.cong refl) auto
  then show ?thesis by (simp add: sum_grid_delta[OF assms])
qed

text \<open>
  Claim C2, as the code has it. For a \<open>TRANSPOSE\<close> node whose argument has shape \<open>(r, c)\<close>,
  so that the node itself has shape \<open>(c, r)\<close>, the constructor returns one matrix of shape
  \<open>(r \<cdot> c, r \<cdot> c)\<close> with one triplet per pair \<open>(i, j)\<close> of \<open>[0, c) \<times> [0, r)\<close>, that is per
  position of the result: the entry at row \<open>c \<cdot> j + i\<close> and column \<open>i \<cdot> r + j\<close> is 1 and
  every other entry is 0. Applied to the column-major flattening of any \<open>(r, c)\<close> matrix
  \<open>M\<close> it yields the flattening of the transpose of \<open>M\<close>.
\<close>

theorem get_transpose_coefficients_result_shape:
  assumes "sz expr = (c, r)"
  shows "\<exists>T. get_transpose_coefficients sz expr = Inr [T] \<and>
           nrows T = r * c \<and> ncols T = r * c \<and> length (triplets T) = r * c \<and>
           (\<forall>p q. coeff T p q =
              (if \<exists>i<c. \<exists>j<r. p = c * j + i \<and> q = i * r + j then 1 else 0)) \<and>
           (\<forall>M. mat_vec T (vec r c M) = vec c r (\<lambda>i j. M j i))"
proof -
  let ?ts = "concat (map (\<lambda>i. map (\<lambda>j. (c * j + i, i * r + j, 1::real)) [0..<r]) [0..<c])"
  let ?T = "\<lparr>nrows = c * r, ncols = c * r, triplets = ?ts\<rparr>"
  have res: "get_transpose_coefficients sz expr = Inr [?T]"
    using assms transpose_in_range[of c r]
    by (simp add: get_transpose_coefficients_def setFromTriplets_def)
  have len: "length ?ts = r * c"
    by (simp add: length_concat comp_def sum_list_triv)
  have co: "coeff ?T p q = (if \<exists>i<c. \<exists>j<r. p = c * j + i \<and> q = i * r + j then 1 else 0)" for p q
    unfolding coeff_def by (simp add: transpose_coeff)
  have ap: "mat_vec ?T (vec r c M) = vec c r (\<lambda>i j. M j i)" for M
  proof (rule nth_equalityI)
    show "length (mat_vec ?T (vec r c M)) = length (vec c r (\<lambda>i j. M j i))"
      by (simp add: mat_vec_def vec_def)
  next
    fix p assume "p < length (mat_vec ?T (vec r c M))"
    then have p: "p < c * r" by (simp add: mat_vec_def)
    then have c0: "0 < c" by (cases c) auto
    have dv: "p div c < r" using p by (simp add: less_mult_imp_div_less mult.commute)
    have md: "p mod c < c" using c0 by simp
    have k: "(p mod c) * r + p div c < r * c"
      using grid_bound[OF dv md] by (simp add: mult.commute)
    have "mat_vec ?T (vec r c M) ! p = vec r c M ! ((p mod c) * r + p div c)"
      using p by (simp add: mat_vec_def transpose_apply)
    also have "\<dots> = M (p div c) (p mod c)"
      using k dv by (simp add: vec_def)
    also have "\<dots> = vec c r (\<lambda>i j. M j i) ! p"
      using p by (simp add: vec_def)
    finally show "mat_vec ?T (vec r c M) ! p = vec c r (\<lambda>i j. M j i) ! p" .
  qed
  show ?thesis
    using res len co ap by (intro exI[of _ ?T]) (simp add: mult.commute)
qed

theorem get_transpose_coefficients_result_shape_witness:
  "size_spec (Expression TRANSPOSE [var 0 (2, 3)] NoAttributes) = (3, 2) \<and>
   (\<exists>T. get_transpose_coefficients size_spec
            (Expression TRANSPOSE [var 0 (2, 3)] NoAttributes) = Inr [T] \<and>
        nrows T = 2 * 3 \<and> ncols T = 2 * 3 \<and> length (triplets T) = 2 * 3 \<and>
        (\<forall>p q. coeff T p q =
           (if \<exists>i<3. \<exists>j<2. p = 3 * j + i \<and> q = i * 2 + j then 1 else 0)) \<and>
        (\<forall>M. mat_vec T (vec 2 3 M) = vec 3 2 (\<lambda>i j. M j i)))"
proof -
  have h: "size_spec (Expression TRANSPOSE [var 0 (2, 3)] NoAttributes) = (3, 2)"
    by (simp add: var_def)
  show ?thesis
    using h get_transpose_coefficients_result_shape
      [where sz = size_spec and expr = "Expression TRANSPOSE [var 0 (2, 3)] NoAttributes"
         and c = 3 and r = 2, OF h]
    by blast
qed

text \<open>
  Claim C2 as written places the entry of the pair \<open>(i, j)\<close> of \<open>[0, r) \<times> [0, c)\<close> at row
  \<open>r \<cdot> j + i\<close> and column \<open>i \<cdot> c + j\<close>. For an argument of shape \<open>(2, 3)\<close> and the pair
  \<open>(1, 0)\<close> that is position \<open>(1, 3)\<close>, where the matrix of the code holds 0; its entry of
  row 1 is at column 2.
\<close>

theorem transpose_argument_shape_counterexample:
  "get_transpose_coefficients size_spec (Expression TRANSPOSE [var 0 (2, 3)] NoAttributes) =
     Inr [\<lparr>nrows = 6, ncols = 6,
           triplets = [(0, 0, 1), (3, 1, 1), (1, 2, 1), (4, 3, 1), (2, 4, 1), (5, 5, 1)]\<rparr>] \<and>
   coeff \<lparr>nrows = 6, ncols = 6,
           triplets = [(0, 0, 1), (3, 1, 1), (1, 2, 1), (4, 3, 1), (2, 4, 1), (5, 5, 1)]\<rparr>
     (2 * 0 + 1) (1 * 3 + 0) = 0 \<and>
   coeff \<lparr>nrows = 6, ncols = 6,
           triplets = [(0, 0, 1), (3, 1, 1), (1, 2, 1), (4, 3, 1), (2, 4, 1), (5, 5, 1)]\<rparr>
     1 2 = 1"
  by code_simp


section \<open>Multiplication broadcasting\<close>


lemma sum_list_blocks:
  fixes f :: "'a \<Rightarrow> 'b::comm_monoid_add"
  shows "sum_list (map f (concat (map (\<lambda>b. map (g b) ts) [0..<n]))) =
     (\<Sum>b = 0..<n. sum_list (map (\<lambda>t. f (g b t)) ts))"
  by (simp add: sum_list_concat_map comp_def sum_list_upt)

lemma sum_list_triplets_zero:
  "sum_list (map (\<lambda>(a, b, v). 0::real) (ts :: triplet list)) = 0"
  by (induction ts) auto

lemma block_index_unique:
  fixes r :: nat
  assumes "i < r" "i' < r"
  shows "b * r + i = b' * r + i' \<longleftrightarrow> b = b' \<and> i = i'"
proof
  assume e: "b * r + i = b' * r + i'"
  have "(b * r + i) div r = b" "(b' * r + i') div r = b'" using assms by simp_all
  then have "b = b'" using e by simp
  then show "b = b' \<and> i = i'" using e by simp
qed simp

lemma block_bound:
  fixes r :: nat
  assumes "b < n" "i < r"
  shows "b * r + i < n * r"
proof -
  have "b * r + i < b * r + r" using assms by simp
  also have "\<dots> = Suc b * r" by simp
  also have "\<dots> \<le> n * r" using assms by (intro mult_le_mono1) simp
  finally show ?thesis .
qed

lemma left_mul_coeff:
  assumes wf: "list_all (in_range r c) ts"
      and b0: "b0 < n" and i: "i < r" and j: "j < c"
  shows "sum_list (map (\<lambda>(a, b, v). if a = b0 * r + i \<and> b = b1 * c + j then v else 0)
           (concat (map (\<lambda>k. map (\<lambda>(ti, tj, v). (k * r + ti, k * c + tj, v)) ts) [0..<n]))) =
         (if b0 = b1 then sum_list (map (\<lambda>(a, b, v). if a = i \<and> b = j then v else (0::real)) ts)
          else 0)"
proof -
  have inner: "sum_list (map (\<lambda>t. (\<lambda>(a, b, v). if a = b0 * r + i \<and> b = b1 * c + j then v else 0)
                  ((\<lambda>(ti, tj, v). (k * r + ti, k * c + tj, v)) t)) ts) =
        (if k = b0 then
           (if b0 = b1 then sum_list (map (\<lambda>(a, b, v). if a = i \<and> b = j then v else (0::real)) ts)
            else 0)
         else 0)" for k
  proof -
    have "map (\<lambda>t. (\<lambda>(a, b, v). if a = b0 * r + i \<and> b = b1 * c + j then v else (0::real))
                  ((\<lambda>(ti, tj, v). (k * r + ti, k * c + tj, v)) t)) ts =
          map (\<lambda>(a, b, v). if k = b0 \<and> b0 = b1 \<and> a = i \<and> b = j then v else 0) ts"
    proof (rule map_cong[OF refl])
      fix t assume "t \<in> set ts"
      then have "in_range r c t" using wf by (simp add: list_all_iff)
      then obtain ti tj v where t: "t = (ti, tj, v)" "ti < r" "tj < c"
        by (cases t) (auto simp: in_range_def)
      show "(\<lambda>(a, b, v). if a = b0 * r + i \<and> b = b1 * c + j then v else (0::real))
                  ((\<lambda>(ti, tj, v). (k * r + ti, k * c + tj, v)) t) =
            (\<lambda>(a, b, v). if k = b0 \<and> b0 = b1 \<and> a = i \<and> b = j then v else 0) t"
        using t block_index_unique[OF t(2) i, of k b0] block_index_unique[OF t(3) j, of k b1]
        by auto
    qed
    then have "sum_list (map (\<lambda>t. (\<lambda>(a, b, v). if a = b0 * r + i \<and> b = b1 * c + j then v else (0::real))
                  ((\<lambda>(ti, tj, v). (k * r + ti, k * c + tj, v)) t)) ts) =
          sum_list (map (\<lambda>(a, b, v). if k = b0 \<and> b0 = b1 \<and> a = i \<and> b = j then v else 0) ts)"
      by (simp only:)
    also have "\<dots> = (if k = b0 then
           (if b0 = b1 then sum_list (map (\<lambda>(a, b, v). if a = i \<and> b = j then v else (0::real)) ts)
            else 0)
         else 0)"
      by (cases "k = b0"; cases "b0 = b1") (simp_all add: sum_list_triplets_zero)
    finally show ?thesis .
  qed
  show ?thesis
    unfolding sum_list_blocks inner using b0 by (simp add: sum.delta)
qed


lemma right_mul_coeff:
  assumes k0: "k0 < m" and k1: "k1 < m"
  shows "sum_list (map (\<lambda>(a, b, v). if a = j * m + k0 \<and> b = i * m + k1 then v else 0)
           (concat (map (\<lambda>(ti, tj, v). map (\<lambda>k. (tj * m + k, ti * m + k, v)) [0..<m]) ts))) =
         (if k0 = k1 then sum_list (map (\<lambda>(a, b, v). if a = i \<and> b = j then v else (0::real)) ts)
          else 0)"
proof -
  have inner: "sum_list (map (\<lambda>(a, b, v). if a = j * m + k0 \<and> b = i * m + k1 then v else 0)
                  ((\<lambda>(ti, tj, v). map (\<lambda>k. (tj * m + k, ti * m + k, v)) [0..<m]) t)) =
        (\<lambda>(a, b, v). if k0 = k1 \<and> a = i \<and> b = j then v else (0::real)) t" for t
  proof -
    obtain ti tj v where t: "t = (ti, tj, v)" by (cases t)
    have "(\<Sum>k = 0..<m. if tj * m + k = j * m + k0 \<and> ti * m + k = i * m + k1 then v else 0) =
          (\<Sum>k = 0..<m. if k = k0 then (if k0 = k1 \<and> ti = i \<and> tj = j then v else 0) else 0)"
    proof (intro sum.cong refl)
      fix k assume "k \<in> {0..<m}"
      then have k: "k < m" by simp
      show "(if tj * m + k = j * m + k0 \<and> ti * m + k = i * m + k1 then v else 0) =
            (if k = k0 then (if k0 = k1 \<and> ti = i \<and> tj = j then v else 0) else 0)"
        using block_index_unique[OF k k0, of tj j] block_index_unique[OF k k1, of ti i]
        by auto
    qed
    also have "\<dots> = (if k0 = k1 \<and> ti = i \<and> tj = j then v else 0)"
      using k0 by (simp add: sum.delta)
    finally show ?thesis
      by (simp add: t comp_def sum_list_upt)
  qed
  have "sum_list (map (\<lambda>(a, b, v). if a = j * m + k0 \<and> b = i * m + k1 then v else 0)
           (concat (map (\<lambda>(ti, tj, v). map (\<lambda>k. (tj * m + k, ti * m + k, v)) [0..<m]) ts))) =
        sum_list (map (\<lambda>(a, b, v). if k0 = k1 \<and> a = i \<and> b = j then v else (0::real)) ts)"
    unfolding sum_list_concat_map map_map comp_def inner ..
  also have "\<dots> = (if k0 = k1
      then sum_list (map (\<lambda>(a, b, v). if a = i \<and> b = j then v else (0::real)) ts) else 0)"
    by (cases "k0 = k1") (simp_all add: sum_list_triplets_zero)
  finally show ?thesis .
qed

lemma left_mul_in_range:
  assumes "list_all (in_range r c) ts"
  shows "list_all (in_range (n * r) (n * c))
           (concat (map (\<lambda>k. map (\<lambda>(ti, tj, v). (k * r + ti, k * c + tj, v)) ts) [0..<n]))"
  using assms by (auto simp: list_all_iff in_range_def block_bound)

lemma right_mul_in_range:
  assumes "list_all (in_range r c) ts"
  shows "list_all (in_range (c * m) (r * m))
           (concat (map (\<lambda>(ti, tj, v). map (\<lambda>k. (tj * m + k, ti * m + k, v)) [0..<m]) ts))"
  using assms by (auto simp: list_all_iff in_range_def block_bound)

text \<open>
  What the two constructors do with the matrix they are handed. Let \<open>B\<close> be a sparse matrix
  of shape \<open>(r, c)\<close> whose triplets lie inside it. For a node with \<open>n\<close> columns,
  \<open>get_left_mul_coefficients\<close> returns one matrix of shape \<open>(n \<cdot> r, n \<cdot> c)\<close> that is block
  diagonal with \<open>n\<close> copies of \<open>B\<close>. For a node with \<open>m\<close> rows, \<open>get_right_mul_coefficients\<close>
  returns one matrix of shape \<open>(c \<cdot> m, r \<cdot> m)\<close> whose block at output rows
  \<open>[j \<cdot> m, j \<cdot> m + m)\<close> and input columns \<open>[i \<cdot> m, i \<cdot> m + m)\<close> is \<open>B[i, j] \<cdot> I\<^sub>m\<close>. So they
  treat their argument as the constant itself; \<open>get_coefficients\<close> hands them its flattening.
\<close>

lemma mul_broadcast_coefficients:
  assumes "wf_matrix B" and "nrows B = r" and "ncols B = c"
  shows "(snd (sz expr) = n \<longrightarrow>
            (\<exists>F. get_left_mul_coefficients sz expr B = Inr [F] \<and>
               nrows F = n * r \<and> ncols F = n * c \<and> wf_matrix F \<and>
               (\<forall>b<n. \<forall>b'<n. \<forall>i<r. \<forall>j<c.
                  coeff F (b * r + i) (b' * c + j) = (if b = b' then coeff B i j else 0)))) \<and>
         (fst (sz expr) = m \<longrightarrow>
            (\<exists>F. get_right_mul_coefficients sz expr B = Inr [F] \<and>
               nrows F = c * m \<and> ncols F = r * m \<and> wf_matrix F \<and>
               (\<forall>i<r. \<forall>j<c. \<forall>k<m. \<forall>k'<m.
                  coeff F (j * m + k) (i * m + k') = (if k = k' then coeff B i j else 0))))"
proof (intro conjI impI)
  have wf: "list_all (in_range r c) (triplets B)"
    using assms by (simp add: wf_matrix_def)
  {
    assume n: "snd (sz expr) = n"
    let ?ts = "concat (map (\<lambda>k. map (\<lambda>(ti, tj, v). (k * r + ti, k * c + tj, v)) (triplets B))
                 [0..<n])"
    let ?F = "\<lparr>nrows = n * r, ncols = n * c, triplets = ?ts\<rparr>"
    have res: "get_left_mul_coefficients sz expr B = Inr [?F]"
      using assms(2,3) n left_mul_in_range[OF wf, of n]
      by (simp add: get_left_mul_coefficients_def setFromTriplets_def)
    have wfF: "wf_matrix ?F"
      using left_mul_in_range[OF wf, of n] by (simp add: wf_matrix_def)
    have co: "coeff ?F (b * r + i) (b' * c + j) = (if b = b' then coeff B i j else 0)"
      if "b < n" "i < r" "j < c" for b b' i j
      using left_mul_coeff[OF wf that] by (simp add: coeff_def)
    show "\<exists>F. get_left_mul_coefficients sz expr B = Inr [F] \<and>
               nrows F = n * r \<and> ncols F = n * c \<and> wf_matrix F \<and>
               (\<forall>b<n. \<forall>b'<n. \<forall>i<r. \<forall>j<c.
                  coeff F (b * r + i) (b' * c + j) = (if b = b' then coeff B i j else 0))"
      using res wfF co by (intro exI[of _ ?F]) simp
  }
  {
    assume m: "fst (sz expr) = m"
    let ?ts = "concat (map (\<lambda>(ti, tj, v). map (\<lambda>k. (tj * m + k, ti * m + k, v)) [0..<m])
                 (triplets B))"
    let ?F = "\<lparr>nrows = c * m, ncols = r * m, triplets = ?ts\<rparr>"
    have res: "get_right_mul_coefficients sz expr B = Inr [?F]"
      using assms(2,3) m right_mul_in_range[OF wf, of m]
      by (simp add: get_right_mul_coefficients_def setFromTriplets_def)
    have wfF: "wf_matrix ?F"
      using right_mul_in_range[OF wf, of m] by (simp add: wf_matrix_def)
    have co: "coeff ?F (j * m + k) (i * m + k') = (if k = k' then coeff B i j else 0)"
      if "k < m" "k' < m" for i j k k'
      using right_mul_coeff[OF that] by (simp add: coeff_def)
    show "\<exists>F. get_right_mul_coefficients sz expr B = Inr [F] \<and>
               nrows F = c * m \<and> ncols F = r * m \<and> wf_matrix F \<and>
               (\<forall>i<r. \<forall>j<c. \<forall>k<m. \<forall>k'<m.
                  coeff F (j * m + k) (i * m + k') = (if k = k' then coeff B i j else 0))"
      using res wfF co by (intro exI[of _ ?F]) simp
  }
qed

lemma mul_broadcast_coefficients_example:
  "wf_matrix \<lparr>nrows = 2, ncols = 2, triplets = [(0, 0, 1), (1, 0, 3), (0, 1, 2), (1, 1, 4)]\<rparr> \<and>
   snd (size_spec (mul (const_node (dense_of_rows [[1, 2], [3, 4]])) (var 0 (2, 2)))) = 2 \<and>
   fst (size_spec (mul (const_node (dense_of_rows [[1, 2], [3, 4]])) (var 0 (2, 2)))) = 2 \<and>
   (\<exists>F. get_left_mul_coefficients size_spec (mul (const_node (dense_of_rows [[1, 2], [3, 4]])) (var 0 (2, 2)))
          \<lparr>nrows = 2, ncols = 2, triplets = [(0, 0, 1), (1, 0, 3), (0, 1, 2), (1, 1, 4)]\<rparr> =
          Inr [F] \<and>
        nrows F = 4 \<and> ncols F = 4 \<and> coeff F (1 * 2 + 1) (1 * 2 + 0) = 3 \<and>
        coeff F (1 * 2 + 1) (0 * 2 + 0) = 0) \<and>
   (\<exists>F. get_right_mul_coefficients size_spec (mul (const_node (dense_of_rows [[1, 2], [3, 4]])) (var 0 (2, 2)))
          \<lparr>nrows = 2, ncols = 2, triplets = [(0, 0, 1), (1, 0, 3), (0, 1, 2), (1, 1, 4)]\<rparr> =
          Inr [F] \<and>
        nrows F = 4 \<and> ncols F = 4 \<and> coeff F (1 * 2 + 1) (0 * 2 + 1) = 2 \<and>
        coeff F (1 * 2 + 1) (0 * 2 + 0) = 0)"
proof -
  let ?B = "\<lparr>nrows = 2, ncols = 2, triplets = [(0, 0, 1), (1, 0, 3), (0, 1, 2), (1, 1, 4)]\<rparr>"
  let ?e = "mul (const_node (dense_of_rows [[1, 2], [3, 4]])) (var 0 (2, 2))"
  have wf: "wf_matrix ?B" by (simp add: wf_matrix_def in_range_def)
  have n: "snd (size_spec ?e) = 2" and m: "fst (size_spec ?e) = 2"
    by (simp_all add: mul_def var_def const_node_def dense_of_rows_def)
  have c10: "coeff ?B 1 0 = 3" and c01: "coeff ?B 0 1 = 2"
    by (simp_all add: coeff_def)
  note t = mul_broadcast_coefficients
    [where B = ?B and r = 2 and c = 2 and sz = size_spec and expr = ?e and n = 2 and m = 2,
     OF wf]
  have t': "(\<exists>F. get_left_mul_coefficients size_spec ?e ?B = Inr [F] \<and>
               nrows F = 2 * 2 \<and> ncols F = 2 * 2 \<and> wf_matrix F \<and>
               (\<forall>b<2. \<forall>b'<2. \<forall>i<2. \<forall>j<2.
                  coeff F (b * 2 + i) (b' * 2 + j) = (if b = b' then coeff ?B i j else 0))) \<and>
            (\<exists>F. get_right_mul_coefficients size_spec ?e ?B = Inr [F] \<and>
               nrows F = 2 * 2 \<and> ncols F = 2 * 2 \<and> wf_matrix F \<and>
               (\<forall>i<2. \<forall>j<2. \<forall>k<2. \<forall>k'<2.
                  coeff F (j * 2 + k) (i * 2 + k') = (if k = k' then coeff ?B i j else 0)))"
    using t n m by simp
  from t' obtain F where F: "get_left_mul_coefficients size_spec ?e ?B = Inr [F]"
      "nrows F = 2 * 2" "ncols F = 2 * 2"
      "\<forall>b<2. \<forall>b'<2. \<forall>i<2. \<forall>j<2.
         coeff F (b * 2 + i) (b' * 2 + j) = (if b = b' then coeff ?B i j else 0)"
    by blast
  from t' obtain G where G: "get_right_mul_coefficients size_spec ?e ?B = Inr [G]"
      "nrows G = 2 * 2" "ncols G = 2 * 2"
      "\<forall>i<2. \<forall>j<2. \<forall>k<2. \<forall>k'<2.
         coeff G (j * 2 + k) (i * 2 + k') = (if k = k' then coeff ?B i j else 0)"
    by blast
  have f1: "coeff F (1 * 2 + 1) (1 * 2 + 0) = 3"
    using F(4)[rule_format, of 1 1 1 0] c10 by simp
  have f2: "coeff F (1 * 2 + 1) (0 * 2 + 0) = 0"
    using F(4)[rule_format, of 1 0 1 0] by simp
  have g1: "coeff G (1 * 2 + 1) (0 * 2 + 1) = 2"
    using G(4)[rule_format, of 0 1 1 1] c01 by simp
  have g2: "coeff G (1 * 2 + 1) (0 * 2 + 0) = 0"
    using G(4)[rule_format, of 0 1 1 0] by simp
  have left: "\<exists>F. get_left_mul_coefficients size_spec ?e ?B = Inr [F] \<and>
        nrows F = 4 \<and> ncols F = 4 \<and> coeff F (1 * 2 + 1) (1 * 2 + 0) = 3 \<and>
        coeff F (1 * 2 + 1) (0 * 2 + 0) = 0"
    using F(1,2,3) f1 f2 by (intro exI[of _ F]) simp
  have right: "\<exists>F. get_right_mul_coefficients size_spec ?e ?B = Inr [F] \<and>
        nrows F = 4 \<and> ncols F = 4 \<and> coeff F (1 * 2 + 1) (0 * 2 + 1) = 2 \<and>
        coeff F (1 * 2 + 1) (0 * 2 + 0) = 0"
    using G(1,2,3) g1 g2 by (intro exI[of _ G]) simp
  show ?thesis using wf n m left right by blast
qed

text \<open>
  Claim C3 asks that, for a \<open>MUL\<close> node whose left child is a constant \<open>B\<close> of shape \<open>(r, c)\<close>
  and whose result has \<open>n\<close> columns, the broadcasting operator is block diagonal with \<open>n\<close>
  blocks of \<open>B\<close>, of shape \<open>(n \<cdot> r, n \<cdot> c)\<close>, and that for a constant right child and an unknown
  with \<open>m\<close> rows it has shape \<open>(c \<cdot> m, r \<cdot> m)\<close>. For the product of the constant
  \<open>[[1, 2], [3, 4]]\<close> with a variable of shape \<open>(2, 2)\<close> the operator that \<open>get_coefficients\<close>
  builds is the one of the \<open>CONST_ID\<close> entry, the flattening of shape \<open>(4, 1)\<close>: its shape is
  \<open>(8, 2)\<close> where the claim has \<open>(4, 4)\<close>, with the constant on the right it is \<open>(2, 8)\<close>, and
  both calls end on the dimension check.
\<close>

theorem mul_node_operator_from_flattened_constant:
  "size_spec (mul (const_node (dense_of_rows [[1, 2], [3, 4]])) (var 0 (2, 2))) = (2, 2) \<and>
   get_coefficients size_spec (const_node (dense_of_rows [[1, 2], [3, 4]])) =
     Inr [(kConstCoefficientId,
           \<lparr>nrows = 4, ncols = 1, triplets = [(0, 0, 1), (1, 0, 3), (2, 0, 2), (3, 0, 4)]\<rparr>)] \<and>
   get_coefficients size_spec (var 0 (2, 2)) =
     Inr [(0, \<lparr>nrows = 4, ncols = 4,
               triplets = [(0, 0, 1), (1, 1, 1), (2, 2, 1), (3, 3, 1)]\<rparr>)] \<and>
   get_left_mul_coefficients size_spec
       (mul (const_node (dense_of_rows [[1, 2], [3, 4]])) (var 0 (2, 2)))
       (cm_at [(kConstCoefficientId,
                \<lparr>nrows = 4, ncols = 1,
                   triplets = [(0, 0, 1), (1, 0, 3), (2, 0, 2), (3, 0, 4)]\<rparr>)]
          kConstCoefficientId) =
     Inr [\<lparr>nrows = 8, ncols = 2,
           triplets = [(0, 0, 1), (1, 0, 3), (2, 0, 2), (3, 0, 4),
                       (4, 1, 1), (5, 1, 3), (6, 1, 2), (7, 1, 4)]\<rparr>] \<and>
   get_coefficients size_spec (mul (const_node (dense_of_rows [[1, 2], [3, 4]])) (var 0 (2, 2))) =
     Inl DimMismatch \<and>
   size_spec (mul (var 0 (2, 2)) (const_node (dense_of_rows [[1, 2], [3, 4]]))) = (2, 2) \<and>
   get_right_mul_coefficients size_spec
       (mul (var 0 (2, 2)) (const_node (dense_of_rows [[1, 2], [3, 4]])))
       (cm_at [(kConstCoefficientId,
                \<lparr>nrows = 4, ncols = 1,
                   triplets = [(0, 0, 1), (1, 0, 3), (2, 0, 2), (3, 0, 4)]\<rparr>)]
          kConstCoefficientId) =
     Inr [\<lparr>nrows = 2, ncols = 8,
           triplets = [(0, 0, 1), (1, 1, 1), (0, 2, 3), (1, 3, 3),
                       (0, 4, 2), (1, 5, 2), (0, 6, 4), (1, 7, 4)]\<rparr>] \<and>
   get_coefficients size_spec (mul (var 0 (2, 2)) (const_node (dense_of_rows [[1, 2], [3, 4]]))) =
     Inl DimMismatch"
  by code_simp

section \<open>The extractor on the scenarios without a product\<close>

text \<open>
  Scenarios S1, S2 and S4 of the spec, run on the embedding: a variable of shape \<open>(2, 1)\<close>, the
  sum of that variable and the constant \<open>[[3], [4]]\<close>, and the sum of the entries of a
  variable of shape \<open>(3, 1)\<close>.
\<close>

lemma scenario_S1:
  "get_coefficients size_spec (var 0 (2, 1)) =
     Inr [(0, \<lparr>nrows = 2, ncols = 2, triplets = [(0, 0, 1), (1, 1, 1)]\<rparr>)]"
  by code_simp

lemma scenario_S2:
  "get_coefficients size_spec (add (var 0 (2, 1)) (const_node (dense_of_rows [[3], [4]]))) =
     Inr [(kConstCoefficientId, \<lparr>nrows = 2, ncols = 1, triplets = [(0, 0, 3), (1, 0, 4)]\<rparr>),
          (0, \<lparr>nrows = 2, ncols = 2, triplets = [(0, 0, 1), (1, 1, 1)]\<rparr>)]"
  by code_simp

lemma scenario_S4:
  "get_coefficients size_spec (sum_entries (var 0 (3, 1))) =
     Inr [(0, \<lparr>nrows = 1, ncols = 3, triplets = [(0, 0, 1), (0, 1, 1), (0, 2, 1)]\<rparr>)]"
  by code_simp

section \<open>Coefficient maps and the product node\<close>


lemma cm_insert_append:
  assumes "\<forall>e\<in>set pre. fst e < k"
  shows "cm_insert k v pre = pre @ [(k, v)]"
  using assms by (induction pre) auto

lemma map_of_above:
  assumes "\<forall>e\<in>set pre. fst e < (k::int)"
  shows "map_of pre k = None"
  using assms by (induction pre) auto

lemma multiply_by_constant_fresh:
  assumes "sorted_wrt (<) (map fst (pre @ m))"
  shows "multiply_by_constant F m pre =
           (if cols_match F m then Inr (pre @ map (\<lambda>(k, M). (k, mat_mul F M)) m)
            else Inl DimMismatch)"
  using assms
proof (induction m arbitrary: pre)
  case Nil
  then show ?case by (simp add: cols_match_def)
next
  case (Cons e m)
  obtain k M where e: "e = (k, M)" by (cases e)
  have below: "\<forall>x\<in>set pre. fst x < k"
    using Cons.prems by (auto simp: e sorted_wrt_append)
  have srt: "sorted_wrt (<) (map fst ((pre @ [(k, mat_mul F M)]) @ m))"
    using Cons.prems by (simp add: e)
  show ?case
  proof (cases "ncols F = nrows M")
    case True
    then show ?thesis
      using Cons.IH[OF srt] by (simp add: e map_of_above[OF below] cm_insert_append[OF below] cols_match_def)
  next
    case False
    then show ?thesis by (simp add: e cols_match_def)
  qed
qed

lemma cm_insert_subset: "set (cm_insert k v m) \<subseteq> insert (k, v) (set m)"
  by (induction m) (auto split: if_splits)

lemma cm_insert_sorted:
  assumes "cm_sorted m"
  shows "cm_sorted (cm_insert k v m)"
  using assms unfolding cm_sorted_def
proof (induction m)
  case Nil
  then show ?case by simp
next
  case (Cons e m)
  obtain k' v' where e: "e = (k', v')" by (cases e)
  have "\<forall>x\<in>set (cm_insert k v m). k' < fst x" if "k' < k"
    using Cons.prems that cm_insert_subset[of k v m] by (auto simp: e)
  then show ?case using Cons by (auto simp: e)
qed

lemma cm_update_keys: "map fst (cm_update k v m) = map fst m"
  by (induction m) auto

lemma cm_update_sorted: "cm_sorted m \<Longrightarrow> cm_sorted (cm_update k v m)"
  by (simp add: cm_sorted_def cm_update_keys)

lemma multiply_by_constant_sorted:
  assumes "multiply_by_constant F m pre = Inr res" and "cm_sorted pre"
  shows "cm_sorted res"
  using assms
proof (induction m arbitrary: pre)
  case Nil
  then show ?case by simp
next
  case (Cons e m)
  obtain k M where e: "e = (k, M)" by (cases e)
  show ?case
  proof (cases "map_of pre k")
    case None
    then show ?thesis
      using Cons.prems Cons.IH[of "cm_insert k (mat_mul F M) pre"]
      by (auto simp: e cm_insert_sorted split: if_splits)
  next
    case (Some old)
    then show ?thesis
      using Cons.prems Cons.IH cm_update_sorted
      by (auto simp: e split: if_splits sum.splits)
  qed
qed

lemma accumulate_sorted:
  assumes "accumulate fs rs pre = Inr res" and "cm_sorted pre"
  shows "cm_sorted res"
  using assms
proof (induction fs rs pre rule: accumulate.induct)
  case (1 f_coeffs coeffs)
  then show ?case by simp
next
  case (2 r rs coeffs)
  then show ?case by simp
next
  case (3 f fs r rs coeffs)
  then show ?case
    by (auto split: sum.splits dest: multiply_by_constant_sorted)
qed

lemma get_coefficients_sorted:
  assumes "get_coefficients sz e = Inr m"
  shows "cm_sorted m"
proof (cases e)
  case (Expression t as a)
  have nil: "cm_sorted []" by (simp add: cm_sorted_def)
  show ?thesis
    using assms nil unfolding Expression
    by (auto simp: cm_sorted_def split: if_splits attributes.splits list.splits sum.splits option.splits
        dest: multiply_by_constant_sorted[unfolded cm_sorted_def] accumulate_sorted[unfolded cm_sorted_def])
qed

lemma is_constant_iff: "is_constant m \<longleftrightarrow> (\<exists>C. m = [(kConstCoefficientId, C)])"
proof
  assume "is_constant m"
  then show "\<exists>C. m = [(kConstCoefficientId, C)]"
    by (cases m) (auto simp: is_constant_def split: if_splits)
qed (auto simp: is_constant_def)


lemma multiply_by_constant_from_empty:
  assumes "cm_sorted m"
  shows "multiply_by_constant F m [] =
           (if cols_match F m then Inr (map (\<lambda>(k, M). (k, mat_mul F M)) m)
            else Inl DimMismatch)"
  using multiply_by_constant_fresh[of "[]" m F] assms by (simp add: cm_sorted_def)

lemma multiply_by_constant_errors:
  "multiply_by_constant F m pre \<noteq> Inl MulNonConstants"
proof (induction m arbitrary: pre)
  case Nil
  then show ?case by simp
next
  case (Cons e m)
  obtain k M where e: "e = (k, M)" by (cases e)
  show ?case
    using Cons.IH by (auto simp: e mat_add_def Let_def split: option.splits sum.splits if_splits)
qed

text \<open>
  Claim C4, as the code has it. Let the recursion on both children of a binary \<open>MUL\<close> node
  succeed. Then \<open>get_coefficients\<close> fails with "multiplying two non constants" exactly when
  neither coefficient map is constant. When the left map is constant (or else the right
  one), \<open>F\<close> is the single matrix that the broadcasting constructor builds from its
  \<open>CONST_ID\<close> entry; the call then fails on the dimension check of \<open>multiply_by_constant\<close>
  when some entry of the other side has a row count different from the column count of
  \<open>F\<close>, and otherwise returns, for every variable \<open>v\<close> of the other side and no other key,
  the entry \<open>F \<cdot> coeffs[v]\<close>.
\<close>

theorem get_coefficients_mul:
  assumes "get_coefficients sz l = Inr lhs_coeffs"
      and "get_coefficients sz r = Inr rhs_coeffs"
  shows "(get_coefficients sz (Expression MUL [l, r] a) = Inl MulNonConstants \<longleftrightarrow>
            \<not> is_constant lhs_coeffs \<and> \<not> is_constant rhs_coeffs) \<and>
         (is_constant lhs_coeffs \<longrightarrow>
            get_left_mul_coefficients sz (Expression MUL [l, r] a)
              (cm_at lhs_coeffs kConstCoefficientId) = Inr [F] \<longrightarrow>
            get_coefficients sz (Expression MUL [l, r] a) =
              (if cols_match F rhs_coeffs
               then Inr (map (\<lambda>(v, M). (v, mat_mul F M)) rhs_coeffs)
               else Inl DimMismatch)) \<and>
         (\<not> is_constant lhs_coeffs \<longrightarrow> is_constant rhs_coeffs \<longrightarrow>
            get_right_mul_coefficients sz (Expression MUL [l, r] a)
              (cm_at rhs_coeffs kConstCoefficientId) = Inr [F] \<longrightarrow>
            get_coefficients sz (Expression MUL [l, r] a) =
              (if cols_match F lhs_coeffs
               then Inr (map (\<lambda>(v, M). (v, mat_mul F M)) lhs_coeffs)
               else Inl DimMismatch))"
proof (intro conjI impI)
  note sl = get_coefficients_sorted[OF assms(1)]
  note sr = get_coefficients_sorted[OF assms(2)]
  have lf: "get_left_mul_coefficients sz e B \<noteq> Inl MulNonConstants" for e B
    by (simp add: get_left_mul_coefficients_def setFromTriplets_def Let_def)
  have rf: "get_right_mul_coefficients sz e B \<noteq> Inl MulNonConstants" for e B
    by (simp add: get_right_mul_coefficients_def setFromTriplets_def Let_def)
  show "get_coefficients sz (Expression MUL [l, r] a) = Inl MulNonConstants \<longleftrightarrow>
            \<not> is_constant lhs_coeffs \<and> \<not> is_constant rhs_coeffs"
    using assms lf rf multiply_by_constant_errors
    by (auto split: sum.splits list.splits)
  {
    assume "is_constant lhs_coeffs"
       and "get_left_mul_coefficients sz (Expression MUL [l, r] a)
              (cm_at lhs_coeffs kConstCoefficientId) = Inr [F]"
    then show "get_coefficients sz (Expression MUL [l, r] a) =
              (if cols_match F rhs_coeffs
               then Inr (map (\<lambda>(v, M). (v, mat_mul F M)) rhs_coeffs)
               else Inl DimMismatch)"
      using assms multiply_by_constant_from_empty[OF sr, of F] by simp
  }
  {
    assume "\<not> is_constant lhs_coeffs" and "is_constant rhs_coeffs"
       and "get_right_mul_coefficients sz (Expression MUL [l, r] a)
              (cm_at rhs_coeffs kConstCoefficientId) = Inr [F]"
    then show "get_coefficients sz (Expression MUL [l, r] a) =
              (if cols_match F lhs_coeffs
               then Inr (map (\<lambda>(v, M). (v, mat_mul F M)) lhs_coeffs)
               else Inl DimMismatch)"
      using assms multiply_by_constant_from_empty[OF sl, of F] by simp
  }
qed


theorem get_coefficients_mul_witness:
  "get_coefficients size_spec (const_node (dense_of_rows [[1], [2]])) =
     Inr [(kConstCoefficientId, \<lparr>nrows = 2, ncols = 1, triplets = [(0, 0, 1), (1, 0, 2)]\<rparr>)] \<and>
   get_coefficients size_spec (var 0 (1, 2)) =
     Inr [(0, \<lparr>nrows = 2, ncols = 2, triplets = [(0, 0, 1), (1, 1, 1)]\<rparr>)] \<and>
   get_coefficients size_spec (var 0 (2, 2)) =
     Inr [(0, \<lparr>nrows = 4, ncols = 4,
               triplets = [(0, 0, 1), (1, 1, 1), (2, 2, 1), (3, 3, 1)]\<rparr>)] \<and>
   get_coefficients size_spec
       (Expression MUL [const_node (dense_of_rows [[1], [2]]), var 0 (1, 2)] NoAttributes) =
     Inr (map (\<lambda>(v, M).
            (v, mat_mul \<lparr>nrows = 4, ncols = 2,
                         triplets = [(0, 0, 1), (1, 0, 2), (2, 1, 1), (3, 1, 2)]\<rparr> M))
          [(0, \<lparr>nrows = 2, ncols = 2, triplets = [(0, 0, 1), (1, 1, 1)]\<rparr>)]) \<and>
   get_coefficients size_spec
       (Expression MUL [var 0 (2, 2), const_node (dense_of_rows [[1], [2]])] NoAttributes) =
     Inr (map (\<lambda>(v, M).
            (v, mat_mul \<lparr>nrows = 2, ncols = 4,
                         triplets = [(0, 0, 1), (1, 1, 1), (0, 2, 2), (1, 3, 2)]\<rparr> M))
          [(0, \<lparr>nrows = 4, ncols = 4,
                 triplets = [(0, 0, 1), (1, 1, 1), (2, 2, 1), (3, 3, 1)]\<rparr>)]) \<and>
   get_coefficients size_spec
       (Expression MUL [var 0 (2, 2), const_node (dense_of_rows [[1], [2]])] NoAttributes) \<noteq>
     Inl MulNonConstants"
proof -
  let ?c = "const_node (dense_of_rows [[1], [2]])"
  let ?V = "\<lparr>nrows = 2, ncols = 1, triplets = [(0, 0, 1), (1, 0, 2)]\<rparr>"
  let ?C = "[(kConstCoefficientId, ?V)]"
  let ?X = "[(0, \<lparr>nrows = 2, ncols = 2, triplets = [(0, 0, 1), (1, 1, 1)]\<rparr>)]"
  let ?Y = "[(0, \<lparr>nrows = 4, ncols = 4,
                  triplets = [(0, 0, 1), (1, 1, 1), (2, 2, 1), (3, 3, 1)]\<rparr>)]"
  let ?F = "\<lparr>nrows = 4, ncols = 2, triplets = [(0, 0, 1), (1, 0, 2), (2, 1, 1), (3, 1, 2)]\<rparr>"
  let ?G = "\<lparr>nrows = 2, ncols = 4, triplets = [(0, 0, 1), (1, 1, 1), (0, 2, 2), (1, 3, 2)]\<rparr>"
  have hc: "get_coefficients size_spec ?c = Inr ?C" by code_simp
  have hx: "get_coefficients size_spec (var 0 (1, 2)) = Inr ?X" by code_simp
  have hy: "get_coefficients size_spec (var 0 (2, 2)) = Inr ?Y" by code_simp
  have cc: "is_constant ?C" by code_simp
  have ny: "\<not> is_constant ?Y" by code_simp
  have f: "get_left_mul_coefficients size_spec (Expression MUL [?c, var 0 (1, 2)] NoAttributes)
             (cm_at ?C kConstCoefficientId) = Inr [?F]"
    by code_simp
  have g: "get_right_mul_coefficients size_spec (Expression MUL [var 0 (2, 2), ?c] NoAttributes)
             (cm_at ?C kConstCoefficientId) = Inr [?G]"
    by code_simp
  have mf: "cols_match ?F ?X" by code_simp
  have mg: "cols_match ?G ?Y" by code_simp
  note left = get_coefficients_mul [OF hc hx, of NoAttributes ?F]
  note right = get_coefficients_mul [OF hy hc, of NoAttributes ?G]
  have a: "get_coefficients size_spec (Expression MUL [?c, var 0 (1, 2)] NoAttributes) =
             (if cols_match ?F ?X then Inr (map (\<lambda>(v, M). (v, mat_mul ?F M)) ?X)
              else Inl DimMismatch)"
    using left cc f by blast
  have b: "get_coefficients size_spec (Expression MUL [var 0 (2, 2), ?c] NoAttributes) =
             (if cols_match ?G ?Y then Inr (map (\<lambda>(v, M). (v, mat_mul ?G M)) ?Y)
              else Inl DimMismatch)"
    using right ny cc g by blast
  have c: "get_coefficients size_spec (Expression MUL [var 0 (2, 2), ?c] NoAttributes) \<noteq>
             Inl MulNonConstants"
    using right cc by blast
  show ?thesis
    using hc hx hy a b c mf mg by (simp only: if_True simp_thms)
qed

text \<open>
  Claim C4 as written lets the call succeed whenever one side is constant. The product of
  a constant of shape \<open>(2, 1)\<close> with a variable of shape \<open>(3, 1)\<close> has a constant left side and
  fails on the dimension check; so does the product of a constant of shape \<open>(2, 2)\<close> with a
  variable of shape \<open>(2, 1)\<close>, whose \<open>CONST_ID\<close> entry is the flattened constant.
\<close>

theorem mul_dimension_guard_counterexample:
  "get_coefficients size_spec (const_node (dense_of_rows [[1], [2]])) =
     Inr [(kConstCoefficientId, \<lparr>nrows = 2, ncols = 1, triplets = [(0, 0, 1), (1, 0, 2)]\<rparr>)] \<and>
   is_constant
     [(kConstCoefficientId, \<lparr>nrows = 2, ncols = 1, triplets = [(0, 0, 1), (1, 0, 2)]\<rparr>)] \<and>
   get_coefficients size_spec (var 0 (3, 1)) =
     Inr [(0, \<lparr>nrows = 3, ncols = 3, triplets = [(0, 0, 1), (1, 1, 1), (2, 2, 1)]\<rparr>)] \<and>
   get_coefficients size_spec (mul (const_node (dense_of_rows [[1], [2]])) (var 0 (3, 1))) =
     Inl DimMismatch \<and>
   get_coefficients size_spec (const_node (dense_of_rows [[1, 2], [3, 4]])) =
     Inr [(kConstCoefficientId,
           \<lparr>nrows = 4, ncols = 1, triplets = [(0, 0, 1), (1, 0, 3), (2, 0, 2), (3, 0, 4)]\<rparr>)] \<and>
   is_constant
     [(kConstCoefficientId,
       \<lparr>nrows = 4, ncols = 1, triplets = [(0, 0, 1), (1, 0, 3), (2, 0, 2), (3, 0, 4)]\<rparr>)] \<and>
   get_coefficients size_spec (mul (const_node (dense_of_rows [[1, 2], [3, 4]])) (var 0 (2, 1))) =
     Inl DimMismatch"
  by code_simp

text \<open>
  Claim C1 asks for coefficients with \<open>vec(eval(e)) = \<Sum> A\<^sub>v \<cdot> vec(v) + c\<close> for every affine
  expression. For the product of the constant \<open>[[1, 2], [3, 4]]\<close> with a variable of shape
  \<open>(2, 1)\<close> (scenario S3 of the spec) the code returns no coefficients at all: the \<open>CONST_ID\<close>
  entry of the constant is its flattening, of shape \<open>(4, 1)\<close>, the broadcasting matrix built
  from it has one column, and the dimension check against the two rows of the variable's
  identity fails. The product with the constant on the right fails in the same way.
\<close>

theorem get_coefficients_mul_matrix_constant_fails:
  "size_spec (mul (const_node (dense_of_rows [[1, 2], [3, 4]])) (var 0 (2, 1))) = (2, 1) \<and>
   get_coefficients size_spec (const_node (dense_of_rows [[1, 2], [3, 4]])) =
     Inr [(kConstCoefficientId,
           \<lparr>nrows = 4, ncols = 1, triplets = [(0, 0, 1), (1, 0, 3), (2, 0, 2), (3, 0, 4)]\<rparr>)] \<and>
   get_left_mul_coefficients size_spec
       (mul (const_node (dense_of_rows [[1, 2], [3, 4]])) (var 0 (2, 1)))
       \<lparr>nrows = 4, ncols = 1, triplets = [(0, 0, 1), (1, 0, 3), (2, 0, 2), (3, 0, 4)]\<rparr> =
     Inr [\<lparr>nrows = 4, ncols = 1, triplets = [(0, 0, 1), (1, 0, 3), (2, 0, 2), (3, 0, 4)]\<rparr>] \<and>
   get_coefficients size_spec (var 0 (2, 1)) =
     Inr [(0, \<lparr>nrows = 2, ncols = 2, triplets = [(0, 0, 1), (1, 1, 1)]\<rparr>)] \<and>
   get_coefficients size_spec (mul (const_node (dense_of_rows [[1, 2], [3, 4]])) (var 0 (2, 1))) =
     Inl DimMismatch \<and>
   get_coefficients size_spec (mul (var 0 (1, 2)) (const_node (dense_of_rows [[1, 2], [3, 4]]))) =
     Inl DimMismatch"
  by code_simp

text \<open>
  Where the rows of a result come from: \<open>multiply_by_constant\<close> and the loop over the
  arguments keep the row count of the constructor's matrices, and every constructor of the
  registry builds matrices with \<open>dim(expr)\<close> rows, given the shapes the oracle is meant to
  return for a sum of entries (a scalar), for \<open>DIAG_MAT\<close> (a column) and for \<open>DIAG_VEC\<close> (a
  square). So every node but the product returns matrices with \<open>dim(expr)\<close> rows.
\<close>

lemma cm_update_subset: "set (cm_update k v m) \<subseteq> insert (k, v) (set m)"
  by (induction m) (auto split: if_splits)

lemma multiply_by_constant_rows:
  assumes "multiply_by_constant F m pre = Inr res"
      and "\<forall>e\<in>set pre. nrows (snd e) = nrows F"
  shows "\<forall>e\<in>set res. nrows (snd e) = nrows F"
  using assms
proof (induction m arbitrary: pre)
  case Nil
  then show ?case by simp
next
  case (Cons e m)
  obtain k M where e: "e = (k, M)" by (cases e)
  have dims: "ncols F = nrows M"
    using Cons.prems(1) by (auto simp: e split: if_splits)
  show ?case
  proof (cases "map_of pre k")
    case None
    have "\<forall>x\<in>set (cm_insert k (mat_mul F M) pre). nrows (snd x) = nrows F"
      using Cons.prems(2) cm_insert_subset[of k "mat_mul F M" pre] by (auto simp: mat_mul_def)
    moreover have "multiply_by_constant F m (cm_insert k (mat_mul F M) pre) = Inr res"
      using Cons.prems(1) None dims by (simp add: e)
    ultimately show ?thesis by (rule Cons.IH[rotated])
  next
    case (Some old)
    have old: "nrows old = nrows F"
      using Cons.prems(2) map_of_SomeD[OF Some] by force
    obtain s where s: "mat_add old (mat_mul F M) = Inr s"
      and rest: "multiply_by_constant F m (cm_update k s pre) = Inr res"
      using Cons.prems(1) Some dims by (auto simp: e split: sum.splits)
    have "nrows s = nrows F"
      using s old by (auto simp: mat_add_def split: if_splits)
    then have "\<forall>x\<in>set (cm_update k s pre). nrows (snd x) = nrows F"
      using Cons.prems(2) cm_update_subset[of k s pre] by auto
    with rest show ?thesis by (rule Cons.IH)
  qed
qed

lemma accumulate_rows:
  assumes "accumulate fs rs pre = Inr res"
      and "\<forall>F\<in>set fs. nrows F = d"
      and "\<forall>e\<in>set pre. nrows (snd e) = d"
  shows "\<forall>e\<in>set res. nrows (snd e) = d"
  using assms
proof (induction rs arbitrary: fs pre)
  case Nil
  then show ?case by simp
next
  case (Cons r rs)
  show ?case
  proof (cases fs)
    case Nil
    then show ?thesis using Cons.prems(1) by simp
  next
    case fs: (Cons f fs')
    show ?thesis
    proof (cases r)
      case (Inl err)
      then show ?thesis using Cons.prems(1) fs by simp
    next
      case r: (Inr arg_coeffs)
      show ?thesis
      proof (cases "multiply_by_constant f arg_coeffs pre")
        case (Inl err)
        then show ?thesis using Cons.prems(1) fs r by simp
      next
        case m: (Inr coeffs')
        have a: "accumulate fs' rs coeffs' = Inr res"
          using Cons.prems(1) fs r m by simp
        have f: "nrows f = d" and fs': "\<forall>F\<in>set fs'. nrows F = d"
          using Cons.prems(2) fs by simp_all
        have "\<forall>e\<in>set coeffs'. nrows (snd e) = nrows f"
          using multiply_by_constant_rows[OF m] Cons.prems(3) f by simp
        then have "\<forall>e\<in>set coeffs'. nrows (snd e) = d"
          using f by simp
        then show ?thesis by (rule Cons.IH[OF a fs'])
      qed
    qed
  qed
qed

lemma setFromTriplets_Inr:
  assumes "setFromTriplets r c ts = Inr M"
  shows "nrows M = r" and "ncols M = c" and "triplets M = ts"
  using assms by (auto simp: setFromTriplets_def split: if_splits)

lemma stack_loop_rows:
  assumes "stack_loop sz e v as off = Inr fs"
  shows "\<forall>F\<in>set fs. nrows F = dim sz e"
  using assms
proof (induction as arbitrary: off fs)
  case Nil
  then show ?case by simp
next
  case (Cons a as)
  let ?ts = "concat (map (\<lambda>i. map (\<lambda>j.
              (i + j * (if v then fst (sz e) else fst (sz a)) + off, i + j * fst (sz a), 1::real))
              [0..<snd (sz a)]) [0..<fst (sz a)])"
  let ?off = "off + (if v then fst (sz a) else dim sz a)"
  from Cons.prems obtain M ms where
      M: "setFromTriplets (dim sz e) (dim sz a) ?ts = Inr M"
      and ms: "stack_loop sz e v as ?off = Inr ms"
      and fs: "fs = M # ms"
    by (auto simp: Let_def sparse_matrix_def split: sum.splits)
  show ?case
    using setFromTriplets_Inr(1)[OF M] Cons.IH[OF ms] fs by simp
qed

lemma index_rows:
  assumes "get_index_coefficients sz e = Inr fs"
  shows "\<forall>F\<in>set fs. nrows F = dim sz e"
proof -
  obtain a where a: "arg e 0 = Inr a"
    using assms by (cases "arg e 0") (simp_all add: get_index_coefficients_def)
  show ?thesis
  proof (cases "dim sz e = 0 \<or> fst (sz a) * snd (sz a) = 0")
    case True
    then show ?thesis
      using assms a by (auto simp: get_index_coefficients_def Let_def)
  next
    case False
    then obtain ts M where "setFromTriplets (dim sz e) (fst (sz a) * snd (sz a)) ts = Inr M"
        and "fs = [M]"
      using assms a
      by (simp add: get_index_coefficients_def Let_def
          split: attributes.splits list.splits option.splits sum.splits)
    then show ?thesis using setFromTriplets_Inr(1) by simp
  qed
qed

lemma constructor_rows:
  assumes "kCoefficientFunctions t = Some f"
      and "f sz e = Inr fs"
      and "t = SUM_ENTRIES \<Longrightarrow> dim sz e = 1"
      and "t = DIAG_MAT \<Longrightarrow> snd (sz e) = 1"
      and "t = DIAG_VEC \<Longrightarrow> snd (sz e) = fst (sz e)"
  shows "\<forall>F\<in>set fs. nrows F = dim sz e"
proof -
  consider "t = ADD" | "t = DIAG_MAT" | "t = DIAG_VEC" | "t = HSTACK" | "t = INDEX" | "t = NEG"
    | "t = RESHAPE" | "t = SUM_ENTRIES" | "t = TRANSPOSE" | "t = VSTACK"
    using assms(1) by (auto simp: kCoefficientFunctions_def split: if_splits)
  then show ?thesis
  proof cases
    case 1
    then have "f = get_add_coefficients" using assms(1) by (simp add: kCoefficientFunctions_def)
    then show ?thesis using assms(2)
      by (auto simp: get_add_coefficients_def ones_matrix_def identity_def)
  next
    case 2
    then have "f = get_diag_mat_coefficients"
      using assms(1) by (simp add: kCoefficientFunctions_def)
    then obtain M where "setFromTriplets (fst (sz e)) (fst (sz e) * fst (sz e))
        (map (\<lambda>i. (i, i * fst (sz e) + i, 1)) [0..<fst (sz e)]) = Inr M" "fs = [M]"
      using assms(2) by (auto simp: get_diag_mat_coefficients_def Let_def split: sum.splits)
    then show ?thesis
      using setFromTriplets_Inr(1) assms(4)[OF 2] by (simp add: dim_def)
  next
    case 3
    then have "f = get_diag_vec_coefficients"
      using assms(1) by (simp add: kCoefficientFunctions_def)
    then obtain M where "setFromTriplets (fst (sz e) * fst (sz e)) (fst (sz e))
        (map (\<lambda>i. (i * fst (sz e) + i, i, 1)) [0..<fst (sz e)]) = Inr M" "fs = [M]"
      using assms(2) by (auto simp: get_diag_vec_coefficients_def Let_def split: sum.splits)
    then show ?thesis
      using setFromTriplets_Inr(1) assms(5)[OF 3] by (simp add: dim_def)
  next
    case 4
    then have "f = get_hstack_coefficients"
      using assms(1) by (simp add: kCoefficientFunctions_def)
    then show ?thesis using assms(2) stack_loop_rows
      by (simp add: get_hstack_coefficients_def get_stack_coefficients_def)
  next
    case 5
    then have "f = get_index_coefficients"
      using assms(1) by (simp add: kCoefficientFunctions_def)
    then show ?thesis using assms(2) index_rows by simp
  next
    case 6
    then have "f = get_neg_coefficients" using assms(1) by (simp add: kCoefficientFunctions_def)
    then show ?thesis using assms(2)
      by (auto simp: get_neg_coefficients_def scalar_matrix_def)
  next
    case 7
    then have "f = get_reshape_coefficients"
      using assms(1) by (simp add: kCoefficientFunctions_def)
    then show ?thesis using assms(2)
      by (auto simp: get_reshape_coefficients_def identity_def)
  next
    case 8
    then have "f = get_sum_entries_coefficients"
      using assms(1) by (simp add: kCoefficientFunctions_def)
    then show ?thesis using assms(2) assms(3)[OF 8]
      by (auto simp: get_sum_entries_coefficients_def ones_matrix_def split: sum.splits)
  next
    case 9
    then have "f = get_transpose_coefficients"
      using assms(1) by (simp add: kCoefficientFunctions_def)
    then obtain ts M where "setFromTriplets (fst (sz e) * snd (sz e)) (fst (sz e) * snd (sz e)) ts
        = Inr M" "fs = [M]"
      using assms(2) by (auto simp: get_transpose_coefficients_def Let_def split: sum.splits)
    then show ?thesis
      using setFromTriplets_Inr(1) by (simp add: dim_def)
  next
    case 10
    then have "f = get_vstack_coefficients"
      using assms(1) by (simp add: kCoefficientFunctions_def)
    then show ?thesis using assms(2) stack_loop_rows
      by (simp add: get_vstack_coefficients_def get_stack_coefficients_def)
  qed
qed

lemma get_coefficients_rows_without_mul:
  assumes "get_coefficients sz (Expression t as a) = Inr m"
      and "t \<noteq> MUL"
      and "\<And>d. t = CONST' \<Longrightarrow> a = ConstAttributes d \<Longrightarrow>
             dim sz (Expression t as a) = d_rows d * d_cols d"
      and "t = SUM_ENTRIES \<Longrightarrow> dim sz (Expression t as a) = 1"
      and "t = DIAG_MAT \<Longrightarrow> snd (sz (Expression t as a)) = 1"
      and "t = DIAG_VEC \<Longrightarrow> snd (sz (Expression t as a)) = fst (sz (Expression t as a))"
  shows "\<forall>e\<in>set m. nrows (snd e) = dim sz (Expression t as a)"
proof -
  consider "t = CONST'" | "t = VAR" | "t \<noteq> CONST'" "t \<noteq> VAR" by blast
  then show ?thesis
  proof cases
    case 1
    then show ?thesis using assms(1,3)
      by (auto simp: sparseView_def to_vector_def split: attributes.splits)
  next
    case 2
    then show ?thesis using assms(1)
      by (auto simp: identity_def split: attributes.splits)
  next
    case 3
    then obtain f fs where f: "kCoefficientFunctions t = Some f"
        and fs: "f sz (Expression t as a) = Inr fs"
        and ac: "accumulate fs (map (get_coefficients sz) as) [] = Inr m"
      using assms(1,2) by (auto split: option.splits sum.splits)
    have "\<forall>F\<in>set fs. nrows F = dim sz (Expression t as a)"
      using constructor_rows[OF f fs] assms(4,5,6) by blast
    then show ?thesis using accumulate_rows[OF ac] by simp
  qed
qed

text \<open>
  Claim C5 asks that every matrix returned for \<open>e\<close> has \<open>dim(e)\<close> rows. The product of a
  variable of shape \<open>(2, 0)\<close> with an empty constant of shape \<open>(0, 3)\<close> has shape \<open>(2, 3)\<close> and
  dimension 6; the code succeeds on it and returns a matrix with 2 rows. The product of the
  constant \<open>[[1, 2], [3, 4]]\<close> with a scalar variable, to which the oracle gives shape
  \<open>(2, 1)\<close>, succeeds with a matrix of 4 rows. In both the broadcasting matrix is built from
  the flattened constant.
\<close>

theorem get_coefficients_rows_empty_product:
  "size_spec (mul (var 0 (2, 0)) (const_node (zero_dense 0 3))) = (2, 3) \<and>
   dim size_spec (mul (var 0 (2, 0)) (const_node (zero_dense 0 3))) = 6 \<and>
   get_coefficients size_spec (mul (var 0 (2, 0)) (const_node (zero_dense 0 3))) =
     Inr [(0, \<lparr>nrows = 2, ncols = 0, triplets = []\<rparr>)] \<and>
   size_spec (mul (const_node (dense_of_rows [[1, 2], [3, 4]])) (var 0 (1, 1))) = (2, 1) \<and>
   get_coefficients size_spec (mul (const_node (dense_of_rows [[1, 2], [3, 4]])) (var 0 (1, 1))) =
     Inr [(0, \<lparr>nrows = 4, ncols = 1,
               triplets = [(0, 0, 1), (1, 0, 3), (2, 0, 2), (3, 0, 4)]\<rparr>)]"
  by code_simp


section \<open>The cone transformer: rewrites of the registered atoms\<close>


lemma transform_abs_unary:
  "transform_abs sz (Expression t [x] a) st =
     Inr (var (next_id st) (sz (Expression t [x] a)),
          st\<lparr>acc := acc st @ [leq x (var (next_id st) (sz (Expression t [x] a))),
                             leq (neg x) (var (next_id st) (sz (Expression t [x] a)))],
             next_id := next_id st + 1\<rparr>)"
  by (simp add: transform_abs_def arg_def epi_var_def push_back_def)

text \<open>
  Claim C6. On an \<open>ABS\<close> node whose argument has been transformed to \<open>x\<close>,
  \<open>transform_expression\<close> mints exactly one variable \<open>t\<close> (the identifier counter goes up by
  one) carrying the shape that the oracle gives for the rebuilt \<open>ABS\<close> expression, appends
  exactly the two constraints \<open>x \<le> t\<close> and \<open>\<minus>x \<le> t\<close>, in that order, and returns \<open>t\<close>.
\<close>

theorem transform_abs_node:
  assumes "transform_expression sz x0 st = Inr (x, st1)"
  shows "transform_expression sz (Expression ABS [x0] a) st =
           Inr (var (next_id st1) (sz (Expression ABS [x] a)),
                st1\<lparr>acc := acc st1 @ [leq x (var (next_id st1) (sz (Expression ABS [x] a))),
                                     leq (neg x) (var (next_id st1) (sz (Expression ABS [x] a)))],
                    next_id := next_id st1 + 1\<rparr>)"
  using assms by (simp add: kTransforms_def transform_abs_unary)

theorem transform_abs_node_witness:
  "transform_expression size_spec (var 0 (1, 1)) \<lparr>acc = [], next_id = 1\<rparr> =
     Inr (var 0 (1, 1), \<lparr>acc = [], next_id = 1\<rparr>) \<and>
   transform_expression size_spec (Expression ABS [var 0 (1, 1)] NoAttributes)
       \<lparr>acc = [], next_id = 1\<rparr> =
     Inr (var 1 (1, 1),
          \<lparr>acc = [leq (var 0 (1, 1)) (var 1 (1, 1)), leq (neg (var 0 (1, 1))) (var 1 (1, 1))],
           next_id = 2\<rparr>)"
proof -
  have h: "transform_expression size_spec (var 0 (1, 1)) \<lparr>acc = [], next_id = 1\<rparr> =
     Inr (var 0 (1, 1), \<lparr>acc = [], next_id = 1\<rparr>)"
    by (simp add: var_def kTransforms_def)
  have s: "size_spec (Expression ABS [var 0 (1, 1)] NoAttributes) = (1, 1)"
    by (simp add: var_def)
  show ?thesis
    using h transform_abs_node [OF h, of NoAttributes, unfolded s] by simp
qed

lemma transform_quad_over_lin_binary:
  "transform_quad_over_lin sz (Expression t [x, y] a) st =
     Inr (var (next_id st) (1, 1),
          st\<lparr>acc := acc st @
                  [soc (vstack [add y (neg (var (next_id st) (1, 1))), mul (constant 2) x])
                       (add y (var (next_id st) (1, 1))),
                   leq (constant 0) y],
             next_id := next_id st + 1\<rparr>)"
  by (simp add: transform_quad_over_lin_def arg_def scalar_epi_var_def push_back_def)

text \<open>
  Claim C7. On a \<open>QUAD_OVER_LIN\<close> node whose children have been transformed to \<open>x\<close> and
  \<open>y\<close>, \<open>transform_expression\<close> mints exactly one scalar variable \<open>t\<close>, appends exactly two
  constraints, \<open>SOC(vstack(y + (\<minus>t), 2 \<cdot> x), y + t)\<close> followed by \<open>0 \<le> y\<close>, and returns \<open>t\<close>.
\<close>

theorem transform_quad_over_lin_node:
  assumes "transform_expression sz x0 st = Inr (x, st1)"
      and "transform_expression sz y0 st1 = Inr (y, st2)"
  shows "transform_expression sz (Expression QUAD_OVER_LIN [x0, y0] a) st =
           Inr (var (next_id st2) (1, 1),
                st2\<lparr>acc := acc st2 @
                        [soc (vstack [add y (neg (var (next_id st2) (1, 1))), mul (constant 2) x])
                             (add y (var (next_id st2) (1, 1))),
                         leq (constant 0) y],
                    next_id := next_id st2 + 1\<rparr>)"
  using assms by (simp add: kTransforms_def transform_quad_over_lin_binary)

theorem transform_quad_over_lin_node_witness:
  "transform_expression size_spec (var 0 (3, 1)) \<lparr>acc = [], next_id = 2\<rparr> =
     Inr (var 0 (3, 1), \<lparr>acc = [], next_id = 2\<rparr>) \<and>
   transform_expression size_spec (var 1 (1, 1)) \<lparr>acc = [], next_id = 2\<rparr> =
     Inr (var 1 (1, 1), \<lparr>acc = [], next_id = 2\<rparr>) \<and>
   transform_expression size_spec
       (Expression QUAD_OVER_LIN [var 0 (3, 1), var 1 (1, 1)] NoAttributes)
       \<lparr>acc = [], next_id = 2\<rparr> =
     Inr (var 2 (1, 1),
          \<lparr>acc = [soc (vstack [add (var 1 (1, 1)) (neg (var 2 (1, 1))),
                                mul (constant 2) (var 0 (3, 1))])
                       (add (var 1 (1, 1)) (var 2 (1, 1))),
                   leq (constant 0) (var 1 (1, 1))],
           next_id = 3\<rparr>)"
proof -
  have hx: "transform_expression size_spec (var 0 (3, 1)) \<lparr>acc = [], next_id = 2\<rparr> =
     Inr (var 0 (3, 1), \<lparr>acc = [], next_id = 2\<rparr>)"
    by (simp add: var_def kTransforms_def)
  have hy: "transform_expression size_spec (var 1 (1, 1)) \<lparr>acc = [], next_id = 2\<rparr> =
     Inr (var 1 (1, 1), \<lparr>acc = [], next_id = 2\<rparr>)"
    by (simp add: var_def kTransforms_def)
  show ?thesis
    using hx hy transform_quad_over_lin_node [OF hx hy, of NoAttributes] by simp
qed

text \<open>
  Claim C8. On a \<open>P_NORM\<close> node with attribute \<open>p \<noteq> 1\<close> the transformer fails, whatever the
  children are; when they transform without error the failure is that of the check on \<open>p\<close>.
  With \<open>p = 1\<close> the result is \<open>SUM_ENTRIES\<close> of what the \<open>ABS\<close> rewrite returns on the rebuilt
  node; for one child, transformed to \<open>x\<close>, that rewrite mints exactly one variable \<open>t\<close> and
  emits \<open>x \<le> t\<close> and \<open>\<minus>x \<le> t\<close>.
\<close>

theorem transform_p_norm_node:
  "(p \<noteq> 1 \<longrightarrow> (\<exists>err. transform_expression sz (Expression P_NORM as (PNormAttributes p)) st = Inl err)) \<and>
   (p \<noteq> 1 \<longrightarrow> transform_args sz as st = Inr (linear_args, st1) \<longrightarrow>
      transform_expression sz (Expression P_NORM as (PNormAttributes p)) st = Inl PNormNotOne) \<and>
   (transform_args sz as st = Inr (linear_args, st1) \<longrightarrow>
      transform_expression sz (Expression P_NORM as (PNormAttributes 1)) st =
        (case transform_abs sz (Expression P_NORM linear_args (PNormAttributes 1)) st1 of
           Inl err \<Rightarrow> Inl err
         | Inr (t, st') \<Rightarrow> Inr (sum_entries t, st'))) \<and>
   (transform_expression sz x0 st = Inr (x, st1) \<longrightarrow>
      transform_expression sz (Expression P_NORM [x0] (PNormAttributes 1)) st =
        Inr (sum_entries (var (next_id st1) (sz (Expression P_NORM [x] (PNormAttributes 1)))),
             st1\<lparr>acc := acc st1 @
                     [leq x (var (next_id st1) (sz (Expression P_NORM [x] (PNormAttributes 1)))),
                      leq (neg x)
                        (var (next_id st1) (sz (Expression P_NORM [x] (PNormAttributes 1))))],
                 next_id := next_id st1 + 1\<rparr>))"
  by (auto simp: kTransforms_def transform_p_norm_def transform_abs_unary split: sum.splits prod.splits)


theorem transform_p_norm_node_witness:
  "(2::real) \<noteq> 1 \<and>
   transform_expression size_spec (var 0 (3, 1)) \<lparr>acc = [], next_id = 1\<rparr> =
     Inr (var 0 (3, 1), \<lparr>acc = [], next_id = 1\<rparr>) \<and>
   transform_expression size_spec (Expression P_NORM [var 0 (3, 1)] (PNormAttributes 2))
       \<lparr>acc = [], next_id = 1\<rparr> = Inl PNormNotOne \<and>
   transform_expression size_spec (Expression P_NORM [var 0 (3, 1)] (PNormAttributes 1))
       \<lparr>acc = [], next_id = 1\<rparr> =
     Inr (sum_entries (var 1 (1, 1)),
          \<lparr>acc = [leq (var 0 (3, 1)) (var 1 (1, 1)), leq (neg (var 0 (3, 1))) (var 1 (1, 1))],
           next_id = 2\<rparr>)"
proof -
  let ?st = "\<lparr>acc = [], next_id = 1\<rparr>"
  have h: "transform_expression size_spec (var 0 (3, 1)) ?st = Inr (var 0 (3, 1), ?st)"
    by (simp add: var_def kTransforms_def)
  have ha: "transform_args size_spec [var 0 (3, 1)] ?st = Inr ([var 0 (3, 1)], ?st)"
    using h by simp
  have s: "size_spec (Expression P_NORM [var 0 (3, 1)] (PNormAttributes 1)) = (1, 1)"
    by simp
  note t = transform_p_norm_node
    [where sz = size_spec and p = 2 and as = "[var 0 (3, 1)]" and st = ?st
       and linear_args = "[var 0 (3, 1)]" and ?st1.0 = ?st and ?x0.0 = "var 0 (3, 1)"
       and x = "var 0 (3, 1)", unfolded s]
  have a: "transform_expression size_spec (Expression P_NORM [var 0 (3, 1)] (PNormAttributes 2))
             ?st = Inl PNormNotOne"
    using t ha by (simp del: transform_expression.simps transform_args.simps)
  have b: "transform_expression size_spec (Expression P_NORM [var 0 (3, 1)] (PNormAttributes 1))
             ?st =
     Inr (sum_entries (var 1 (1, 1)),
          \<lparr>acc = [leq (var 0 (3, 1)) (var 1 (1, 1)), leq (neg (var 0 (3, 1))) (var 1 (1, 1))],
           next_id = 2\<rparr>)"
    using t h by (simp del: transform_expression.simps transform_args.simps)
  show ?thesis using h a b by (simp del: transform_expression.simps)
qed

lemma transform_affine_args:
  assumes "\<And>x st. x \<in> set es \<Longrightarrow> affine_tree x \<Longrightarrow> transform_expression sz x st = Inr (x, st)"
      and "list_all affine_tree es"
  shows "transform_args sz es st = Inr (es, st)"
  using assms by (induction es arbitrary: st) simp_all

lemma transform_affine:
  "affine_tree e \<Longrightarrow> transform_expression sz e st = Inr (e, st)"
proof (induction e arbitrary: st)
  case (Expression t as a)
  have "list_all affine_tree as" using Expression.prems by simp
  then have "transform_args sz as st = Inr (as, st)"
    using Expression.IH by (intro transform_affine_args) auto
  moreover have "kTransforms t = None"
    using Expression.prems by (simp add: kTransforms_def)
  ultimately show ?case by simp
qed

text \<open>
  Claim C9. If no node of \<open>e\<close> is an \<open>ABS\<close>, \<open>P_NORM\<close> or \<open>QUAD_OVER_LIN\<close>, then
  \<open>transform_expression\<close> returns \<open>e\<close> itself and leaves the state as it was: an empty
  constraint list is still empty afterwards, and no variable is minted.
\<close>

theorem transform_expression_affine_identity:
  assumes "affine_tree e"
  shows "transform_expression sz e st = Inr (e, st)"
  using assms by (rule transform_affine)

theorem transform_expression_affine_identity_witness:
  "affine_tree (add (var 0 (2, 1)) (neg (var 1 (2, 1)))) \<and>
   transform_expression size_spec (add (var 0 (2, 1)) (neg (var 1 (2, 1))))
       \<lparr>acc = [], next_id = 2\<rparr> =
     Inr (add (var 0 (2, 1)) (neg (var 1 (2, 1))), \<lparr>acc = [], next_id = 2\<rparr>)"
proof -
  have h: "affine_tree (add (var 0 (2, 1)) (neg (var 1 (2, 1))))"
    by (simp add: add_def neg_def var_def)
  show ?thesis
    using h transform_expression_affine_identity [OF h] by simp
qed

lemma with_prefix_simps [simp]:
  "with_prefix cs (Inl err) = Inl err"
  "with_prefix cs (Inr (x, st)) = Inr (x, prepend cs st)"
  by (simp_all add: with_prefix_def)

lemma prepend_push_back: "push_back c (prepend cs st) = prepend cs (push_back c st)"
  by (simp add: push_back_def prepend_def)

lemma transform_abs_prepend:
  "transform_abs sz e (prepend cs st) = with_prefix cs (transform_abs sz e st)"
  by (simp add: transform_abs_def epi_var_def push_back_def prepend_def split: sum.splits)

lemma transform_quad_over_lin_prepend:
  "transform_quad_over_lin sz e (prepend cs st) =
     with_prefix cs (transform_quad_over_lin sz e st)"
  by (simp add: transform_quad_over_lin_def scalar_epi_var_def push_back_def prepend_def
      split: sum.splits)

lemma transform_p_norm_prepend:
  "transform_p_norm sz e (prepend cs st) =
     with_prefix cs (transform_p_norm sz e st)"
  by (simp add: transform_p_norm_def transform_abs_prepend split: attributes.splits sum.splits)

lemma kTransforms_prepend:
  "kTransforms t = Some f \<Longrightarrow>
     f sz e (prepend cs st) = with_prefix cs (f sz e st)"
  by (auto simp: kTransforms_def transform_abs_prepend transform_quad_over_lin_prepend
      transform_p_norm_prepend split: if_splits)

lemma transform_args_prepend:
  assumes "\<And>x st. x \<in> set es \<Longrightarrow>
     transform_expression sz x (prepend cs st) =
       with_prefix cs (transform_expression sz x st)"
  shows "transform_args sz es (prepend cs st) =
           with_prefix cs (transform_args sz es st)"
  using assms
proof (induction es arbitrary: st)
  case Nil
  then show ?case by simp
next
  case (Cons x xs)
  show ?case
  proof (cases "transform_expression sz x st")
    case (Inl err)
    then show ?thesis using Cons.prems[of x st] by simp
  next
    case (Inr r)
    obtain x' st1 where r: "r = (x', st1)" by (cases r)
    have hd: "transform_expression sz x (prepend cs st) = Inr (x', prepend cs st1)"
      using Cons.prems[of x st] Inr r by simp
    have tl: "transform_args sz xs (prepend cs st1) =
                with_prefix cs (transform_args sz xs st1)"
      using Cons.prems by (intro Cons.IH) simp
    show ?thesis
      using Inr r hd tl by (cases "transform_args sz xs st1") (auto split: prod.splits)
  qed
qed

lemma transform_expression_prepend:
  "transform_expression sz e (prepend cs st) =
     with_prefix cs (transform_expression sz e st)"
proof (induction e arbitrary: st)
  case (Expression t as a)
  have args: "transform_args sz as (prepend cs st) =
                with_prefix cs (transform_args sz as st)"
    using Expression.IH by (intro transform_args_prepend)
  show ?case
  proof (cases "transform_args sz as st")
    case (Inl err)
    then show ?thesis using args by simp
  next
    case (Inr r)
    obtain las st1 where r: "r = (las, st1)" by (cases r)
    show ?thesis
    proof (cases "kTransforms t")
      case None
      then show ?thesis using args Inr r by simp
    next
      case (Some f)
      then show ?thesis using args Inr r kTransforms_prepend[OF Some] by simp
    qed
  qed
qed

lemma tstate_split: "(st :: tstate) = prepend (acc st) \<lparr>acc = [], next_id = next_id st\<rparr>"
  by (simp add: prepend_def)

lemma transform_expression_from_empty:
  "transform_expression sz e st =
     with_prefix (acc st)
       (transform_expression sz e \<lparr>acc = [], next_id = next_id st\<rparr>)"
  using transform_expression_prepend[of sz e "acc st" "\<lparr>acc = [], next_id = next_id st\<rparr>"]
  by (simp add: tstate_split[symmetric])

lemma transform_constraints_blocks:
  "transform_constraints sz cs st =
     (case constraint_blocks sz cs (next_id st) of
        Inl err \<Rightarrow> Inl err
      | Inr (blocks, n') \<Rightarrow> Inr (st\<lparr>acc := acc st @ concat blocks, next_id := n'\<rparr>))"
proof (induction cs arbitrary: st)
  case Nil
  then show ?case by simp
next
  case (Cons c cs)
  show ?case
  proof (cases "transform_expression sz c \<lparr>acc = [], next_id = next_id st\<rparr>")
    case (Inl err)
    then show ?thesis using transform_expression_from_empty[of sz c st] by simp
  next
    case (Inr r)
    obtain c' st1 where r: "r = (c', st1)" by (cases r)
    have step: "transform_expression sz c st = Inr (c', prepend (acc st) st1)"
      using transform_expression_from_empty[of sz c st] Inr r by simp
    show ?thesis
      using Inr r step Cons.IH[of "push_back c' (prepend (acc st) st1)"]
      by (auto simp: push_back_def prepend_def split: sum.splits prod.splits)
  qed
qed

text \<open>
  Claim C10. \<open>transform_expression\<close> only appends to the accumulator: the constraints it was
  given are a prefix of the ones it leaves. The constraints of the problem that
  \<open>transform\<close> returns are the auxiliary constraints of the objective followed by the blocks
  of the original constraints in input order, each block being the auxiliary constraints
  of one constraint followed by that constraint, transformed.
\<close>

theorem transform_constraint_order:
  "(transform_expression sz e st = Inr (e', st') \<longrightarrow> (\<exists>aux. acc st' = acc st @ aux)) \<and>
   transform sz prob n0 =
     (case transform_expression sz (objective prob) \<lparr>acc = [], next_id = n0\<rparr> of
        Inl err \<Rightarrow> Inl err
      | Inr (linear_objective, st1) \<Rightarrow>
          (case constraint_blocks sz (constraints prob) (next_id st1) of
             Inl err \<Rightarrow> Inl err
           | Inr (blocks, n') \<Rightarrow>
               Inr (\<lparr>sense = sense prob, objective = linear_objective,
                      constraints = acc st1 @ concat blocks\<rparr>, n')))"
proof
  show "transform_expression sz e st = Inr (e', st') \<longrightarrow> (\<exists>aux. acc st' = acc st @ aux)"
  proof
    assume a: "transform_expression sz e st = Inr (e', st')"
    then obtain st0 where "st' = prepend (acc st) st0"
      using transform_expression_from_empty[of sz e st]
      by (cases "transform_expression sz e \<lparr>acc = [], next_id = next_id st\<rparr>") auto
    then show "\<exists>aux. acc st' = acc st @ aux" by (simp add: prepend_def)
  qed
next
  show "transform sz prob n0 =
     (case transform_expression sz (objective prob) \<lparr>acc = [], next_id = n0\<rparr> of
        Inl err \<Rightarrow> Inl err
      | Inr (linear_objective, st1) \<Rightarrow>
          (case constraint_blocks sz (constraints prob) (next_id st1) of
             Inl err \<Rightarrow> Inl err
           | Inr (blocks, n') \<Rightarrow>
               Inr (\<lparr>sense = sense prob, objective = linear_objective,
                      constraints = acc st1 @ concat blocks\<rparr>, n')))"
    by (simp add: transform_def transform_constraints_blocks split: sum.splits prod.splits)
qed

theorem transform_constraint_order_witness:
  "transform_expression size_spec (Expression ABS [var 0 (1, 1)] NoAttributes)
       \<lparr>acc = [leq (var 0 (1, 1)) (var 1 (1, 1))], next_id = 2\<rparr> =
     Inr (var 2 (1, 1),
          \<lparr>acc = [leq (var 0 (1, 1)) (var 1 (1, 1)), leq (var 0 (1, 1)) (var 2 (1, 1)),
                   leq (neg (var 0 (1, 1))) (var 2 (1, 1))],
           next_id = 3\<rparr>) \<and>
   (\<exists>aux. [leq (var 0 (1, 1)) (var 1 (1, 1)), leq (var 0 (1, 1)) (var 2 (1, 1)),
            leq (neg (var 0 (1, 1))) (var 2 (1, 1))] =
           [leq (var 0 (1, 1)) (var 1 (1, 1))] @ aux) \<and>
   transform size_spec
       \<lparr>sense = MINIMIZE, objective = Expression ABS [var 0 (1, 1)] NoAttributes,
        constraints = [leq (Expression ABS [var 1 (1, 1)] NoAttributes) (var 0 (1, 1)),
                       leq (var 1 (1, 1)) (var 0 (1, 1))]\<rparr> 2 =
     Inr (\<lparr>sense = MINIMIZE, objective = var 2 (1, 1),
           constraints = [leq (var 0 (1, 1)) (var 2 (1, 1)), leq (neg (var 0 (1, 1))) (var 2 (1, 1)),
                          leq (var 1 (1, 1)) (var 3 (1, 1)), leq (neg (var 1 (1, 1))) (var 3 (1, 1)),
                          leq (var 3 (1, 1)) (var 0 (1, 1)),
                          leq (var 1 (1, 1)) (var 0 (1, 1))]\<rparr>, 4)"
proof -
  let ?st = "\<lparr>acc = [leq (var 0 (1, 1)) (var 1 (1, 1))], next_id = 2\<rparr>"
  let ?st' = "\<lparr>acc = [leq (var 0 (1, 1)) (var 1 (1, 1)), leq (var 0 (1, 1)) (var 2 (1, 1)),
                       leq (neg (var 0 (1, 1))) (var 2 (1, 1))], next_id = 3\<rparr>"
  let ?P = "\<lparr>sense = MINIMIZE, objective = Expression ABS [var 0 (1, 1)] NoAttributes,
        constraints = [leq (Expression ABS [var 1 (1, 1)] NoAttributes) (var 0 (1, 1)),
                       leq (var 1 (1, 1)) (var 0 (1, 1))]\<rparr>"
  have h: "transform_expression size_spec (Expression ABS [var 0 (1, 1)] NoAttributes) ?st =
             Inr (var 2 (1, 1), ?st')"
    by (simp add: var_def leq_def neg_def kTransforms_def transform_abs_def arg_def epi_var_def
        push_back_def)
  note t = transform_constraint_order
    [where sz = size_spec and e = "Expression ABS [var 0 (1, 1)] NoAttributes" and st = ?st
       and e' = "var 2 (1, 1)" and st' = ?st' and prob = ?P and ?n0.0 = 2]
  have a: "\<exists>aux. acc ?st' = acc ?st @ aux"
    using t h by blast
  have b: "transform size_spec ?P 2 =
     Inr (\<lparr>sense = MINIMIZE, objective = var 2 (1, 1),
           constraints = [leq (var 0 (1, 1)) (var 2 (1, 1)), leq (neg (var 0 (1, 1))) (var 2 (1, 1)),
                          leq (var 1 (1, 1)) (var 3 (1, 1)), leq (neg (var 1 (1, 1))) (var 3 (1, 1)),
                          leq (var 3 (1, 1)) (var 0 (1, 1)),
                          leq (var 1 (1, 1)) (var 0 (1, 1))]\<rparr>, 4)"
    unfolding conjunct2 [OF t]
    by (simp add: var_def leq_def neg_def kTransforms_def transform_abs_def arg_def epi_var_def
        push_back_def)
  show ?thesis using h a b by simp
qed

end
